theory Spec2Isabelle
  imports Main "HOL-Library.Sublist"
begin

section \<open>Python strings\<close>

text \<open>
  A Python \<open>str\<close> is modelled as an Isabelle \<open>string\<close>: a list of characters whose
  codes are the code points, here those below 256. The helpers of this section are the
  \<open>str\<close> methods the sources call, with Python's meaning on that range.
\<close>

definition isspace :: "char \<Rightarrow> bool" where
  \<comment> \<open>\<open>str.isspace\<close> on one character, which is also the class \<open>\s\<close> of \<open>re\<close> and the
      separator set of \<open>str.split()\<close>: TAB, LF, VT, FF, CR, FS, GS, RS, US, space, NEL
      and the no-break space.\<close>
  "isspace c \<longleftrightarrow> c \<in> set [CHR 0x09, CHR 0x0A, CHR 0x0B, CHR 0x0C, CHR 0x0D,
      CHR 0x1C, CHR 0x1D, CHR 0x1E, CHR 0x1F, CHR 0x20, CHR 0x85, CHR 0xA0]"

definition isdigit :: "char \<Rightarrow> bool" where
  \<comment> \<open>The class \<open>\d\<close> of \<open>re\<close>: the decimal digits, \<open>0\<close> to \<open>9\<close> on this range.\<close>
  "isdigit c \<longleftrightarrow> c \<in> set ''0123456789''"

function split_ws :: "string \<Rightarrow> string list" where
  \<comment> \<open>\<open>s.split()\<close>: the maximal runs of characters that are not whitespace.\<close>
  "split_ws s =
     (let s' = dropWhile isspace s
      in if s' = [] then []
         else takeWhile (\<lambda>c. \<not> isspace c) s' # split_ws (dropWhile (\<lambda>c. \<not> isspace c) s'))"
  by pat_completeness auto
termination
proof (relation "measure length", goal_cases)
  case 1
  show ?case by simp
next
  case (2 s s')
  have shorter: "length (dropWhile (\<lambda>c. \<not> P c) (dropWhile P xs)) < length xs"
    if "dropWhile P xs \<noteq> []" for P :: "char \<Rightarrow> bool" and xs
  proof -
    from that obtain c cs where split: "dropWhile P xs = c # cs"
      by (cases "dropWhile P xs") auto
    have "\<not> P c"
      using hd_dropWhile [OF that] split by simp
    then have "length (dropWhile (\<lambda>c. \<not> P c) (dropWhile P xs)) \<le> length cs"
      by (simp add: split length_dropWhile_le)
    moreover have "length (c # cs) \<le> length xs"
      using length_dropWhile_le [of P xs] split by simp
    ultimately show ?thesis by simp
  qed
  from 2 show ?case by (simp add: shorter)
qed

declare split_ws.simps [simp del]

definition startswith :: "string \<Rightarrow> string \<Rightarrow> bool" where
  \<comment> \<open>\<open>s.startswith(p)\<close>\<close>
  "startswith s p \<longleftrightarrow> take (length p) s = p"

definition endswith :: "string \<Rightarrow> string \<Rightarrow> bool" where
  \<comment> \<open>\<open>s.endswith(p)\<close>\<close>
  "endswith s p \<longleftrightarrow> length p \<le> length s \<and> drop (length s - length p) s = p"

section \<open>Semantic versions and requirements (utils.py)\<close>

type_synonym version = "nat \<times> nat \<times> nat"

definition digit_val :: "char \<Rightarrow> nat" where
  "digit_val c = of_char c - 48"

definition py_int :: "string \<Rightarrow> nat option" where
  \<comment> \<open>\<open>int(ds)\<close> on a run of decimal digits. CPython refuses a string of more than 4300
      digits with ValueError (its default limit); \<open>None\<close> is that exception.\<close>
  "py_int ds = (if length ds > 4300 then None
                else Some (foldl (\<lambda>n c. 10 * n + digit_val c) 0 ds))"

definition parse_semver :: "string \<Rightarrow> version option" where
  \<comment> \<open>\<open>re.match(r"^\s*(\d+)\.(\d+)\.(\d+)", v)\<close>, then three \<open>int\<close> conversions. The three
      character classes and the dot are disjoint, so the greedy match has one way to go:
      skip whitespace, read digits, a dot, digits, a dot, digits; what follows is
      ignored. \<open>None\<close> is the exception (BadParameter when the pattern is absent,
      ValueError out of \<open>int\<close>).\<close>
  "parse_semver v =
     (let r1 = dropWhile isspace v;
          g1 = takeWhile isdigit r1; r2 = dropWhile isdigit r1;
          g2 = takeWhile isdigit (drop 1 r2); r3 = dropWhile isdigit (drop 1 r2);
          g3 = takeWhile isdigit (drop 1 r3)
      in if g1 \<noteq> [] \<and> take 1 r2 = ''.'' \<and> g2 \<noteq> [] \<and> take 1 r3 = ''.'' \<and> g3 \<noteq> []
         then (case (py_int g1, py_int g2, py_int g3) of
                 (Some a, Some b, Some c) \<Rightarrow> Some (a, b, c)
               | _ \<Rightarrow> None)
         else None)"

definition tuple_less :: "version \<Rightarrow> version \<Rightarrow> bool" where
  \<comment> \<open>Python's \<open><\<close> on tuples of three ints: lexicographic.\<close>
  "tuple_less a b =
     (case (a, b) of ((a1, a2, a3), (b1, b2, b3)) \<Rightarrow>
        a1 < b1 \<or> (a1 = b1 \<and> (a2 < b2 \<or> (a2 = b2 \<and> a3 < b3))))"

definition cmp_semver :: "version \<Rightarrow> version \<Rightarrow> int" where
  \<comment> \<open>\<open>(a > b) - (a < b)\<close>, the booleans read as 0 and 1.\<close>
  "cmp_semver a b = (if tuple_less b a then 1 else 0) - (if tuple_less a b then 1 else 0)"

definition operators :: "string list" where
  \<comment> \<open>The tuple both loops of \<open>matches_version_req\<close> go through, in its order.\<close>
  "operators = [''>='', ''<='', ''=='', ''!='', ''>'', ''<'', ''='']"

definition find_prefix :: "string \<Rightarrow> (string \<times> string) option" where
  \<comment> \<open>The \<open>for prefix in (...)\<close> loop: the first operator the token starts with, and the
      rest of the token; \<open>None\<close> when the loop ends with \<open>op\<close> still unset.\<close>
  "find_prefix t =
     (case find (startswith t) operators of
        Some p \<Rightarrow> Some (p, drop (length p) t)
      | None \<Rightarrow> None)"

definition op_holds :: "string \<Rightarrow> int \<Rightarrow> bool" where
  \<comment> \<open>The dictionary \<open>{">": c > 0, ...}[op]\<close>. Its keys are the seven operators, and
      \<open>op\<close> is always one of them, so the lookup never fails; the last branch stands for
      the KeyError no call reaches.\<close>
  "op_holds opr c =
     (if opr = ''>'' then c > 0
      else if opr = ''<'' then c < 0
      else if opr = ''>='' then c \<ge> 0
      else if opr = ''<='' then c \<le> 0
      else if opr = ''=='' then c = 0
      else if opr = ''='' then c = 0
      else if opr = ''!='' then c \<noteq> 0
      else False)"

definition constraint_holds :: "version \<Rightarrow> string \<times> string \<Rightarrow> bool" where
  \<comment> \<open>The tail of the loop body for one (operator, operand) pair: \<open>parse_semver\<close> under
      \<open>try\<close> (any exception makes the requirement fail), then the comparison.\<close>
  "constraint_holds ver ov =
     (case parse_semver (snd ov) of
        None \<Rightarrow> False
      | Some sv \<Rightarrow> op_holds (fst ov) (cmp_semver ver sv))"

fun req_loop :: "string list \<Rightarrow> version \<Rightarrow> bool" where
  \<comment> \<open>The \<open>while i < len(tokens)\<close> loop, on the tokens from index \<open>i\<close> on. A token with an
      operator prefix is one constraint; a token without one that is itself an operator
      and has a successor takes the successor as operand (\<open>i\<close> advances twice); any other
      token is skipped. The first constraint that fails returns False.\<close>
  "req_loop [] ver = True"
| "req_loop (t # ts) ver =
     (case find_prefix t of
        Some (opr, v) \<Rightarrow>
          (if constraint_holds ver (opr, v) then req_loop ts ver else False)
      | None \<Rightarrow>
          (case ts of
             n # ts' \<Rightarrow>
               (if t \<in> set operators
                then (if constraint_holds ver (t, n) then req_loop ts' ver else False)
                else req_loop ts ver)
           | [] \<Rightarrow> req_loop ts ver))"

definition matches_version_req :: "string \<Rightarrow> version \<Rightarrow> bool" where
  "matches_version_req req ver =
     (let tokens = split_ws req in if tokens = [] then True else req_loop tokens ver)"

fun constraints :: "string list \<Rightarrow> (string \<times> string) list" where
  \<comment> \<open>The (operator, operand) pairs the loop of \<open>matches_version_req\<close> recognises, in
      order: the recognition of \<open>req_loop\<close> without the evaluation.\<close>
  "constraints [] = []"
| "constraints (t # ts) =
     (case find_prefix t of
        Some (opr, v) \<Rightarrow> (opr, v) # constraints ts
      | None \<Rightarrow>
          (case ts of
             n # ts' \<Rightarrow>
               (if t \<in> set operators then (t, n) # constraints ts' else constraints ts)
           | [] \<Rightarrow> constraints ts))"

section \<open>Git source references (utils.py, models.py)\<close>

subsection \<open>More string methods\<close>

fun split_on :: "char \<Rightarrow> string \<Rightarrow> string list" where
  \<comment> \<open>\<open>s.split(c)\<close> for a separator of one character: never empty, \<open>[[]]\<close> for the
      empty string.\<close>
  "split_on c [] = [[]]"
| "split_on c (x # xs) =
     (let r = split_on c xs in if x = c then [] # r else (x # hd r) # tl r)"

fun join :: "string \<Rightarrow> string list \<Rightarrow> string" where
  \<comment> \<open>\<open>sep.join(xs)\<close>\<close>
  "join sep [] = []"
| "join sep [x] = x"
| "join sep (x # y # ys) = x @ sep @ join sep (y # ys)"

definition lower_char :: "char \<Rightarrow> char" where
  \<comment> \<open>\<open>str.lower\<close> on one code point below 256: the ASCII capitals and the Latin-1
      capitals (0xC0 to 0xDE without the multiplication sign) move up by 32.\<close>
  "lower_char c =
     (let n = (of_char c :: nat)
      in if (65 \<le> n \<and> n \<le> 90) \<or> (192 \<le> n \<and> n \<le> 222 \<and> n \<noteq> 215)
         then char_of (n + 32) else c)"

definition lower :: "string \<Rightarrow> string" where
  "lower s = map lower_char s"

definition removesuffix :: "string \<Rightarrow> string \<Rightarrow> string" where
  \<comment> \<open>\<open>s.removesuffix(p)\<close>\<close>
  "removesuffix s p = (if p \<noteq> [] \<and> endswith s p then take (length s - length p) s else s)"

definition split_first :: "char \<Rightarrow> string \<Rightarrow> string \<times> string" where
  \<comment> \<open>\<open>(s.split(c, 1) + [""])[:2]\<close>: the text before the first \<open>c\<close> and the text after
      it, which is empty when there is no \<open>c\<close>.\<close>
  "split_first c s = (takeWhile (\<lambda>x. x \<noteq> c) s, drop 1 (dropWhile (\<lambda>x. x \<noteq> c) s))"

subsection \<open>pathlib and urllib\<close>

record pure_path =
  root :: string
  names :: "string list"

definition Path :: "string \<Rightarrow> pure_path" where
  \<comment> \<open>\<open>pathlib.Path(s)\<close> on POSIX, as the parts it keeps: the root (\<open>/\<close>, \<open>//\<close> for
      exactly two leading slashes, or none) and the components, where empty components
      and \<open>.\<close> are dropped and \<open>..\<close> is kept.\<close>
  "Path s =
     (let r = (if take 1 s \<noteq> ''/'' then ''''
               else if take 1 (drop 1 s) \<noteq> ''/'' \<or> take 1 (drop 2 s) = ''/'' then ''/''
               else ''//'')
      in \<lparr>root = r,
          names = filter (\<lambda>x. x \<noteq> [] \<and> x \<noteq> ''.'') (split_on CHR ''/'' (drop (length r) s))\<rparr>)"

record parse_result =
  scheme :: string
  netloc :: string
  path :: string

definition scheme_chars :: "char set" where
  "scheme_chars =
     set ''abcdefghijklmnopqrstuvwxyzABCDEFGHIJKLMNOPQRSTUVWXYZ0123456789+-.''"

definition isalpha_ascii :: "char \<Rightarrow> bool" where
  \<comment> \<open>\<open>c.isascii() and c.isalpha()\<close>\<close>
  "isalpha_ascii c \<longleftrightarrow> c \<in> set ''abcdefghijklmnopqrstuvwxyzABCDEFGHIJKLMNOPQRSTUVWXYZ''"

definition uses_params :: "string list" where
  "uses_params = ['''', ''ftp'', ''hdl'', ''prospero'', ''http'', ''imap'', ''https'',
     ''shttp'', ''rtsp'', ''rtsps'', ''rtspu'', ''sip'', ''sips'', ''mms'', ''sftp'', ''tel'']"

definition split_scheme :: "string \<Rightarrow> string \<times> string" where
  \<comment> \<open>The scheme step of \<open>urlsplit\<close>: when the text before the first colon is not empty,
      starts with an ASCII letter and has scheme characters only, it is the scheme (in
      lower case) and the URL goes on after the colon.\<close>
  "split_scheme url =
     (let pre = takeWhile (\<lambda>c. c \<noteq> CHR '':'') url
      in if CHR '':'' \<in> set url \<and> pre \<noteq> [] \<and> isalpha_ascii (hd url) \<and> set pre \<subseteq> scheme_chars
         then (lower pre, drop (length pre + 1) url)
         else ('''', url))"

definition splitnetloc :: "string \<Rightarrow> string \<times> string" where
  \<comment> \<open>\<open>_splitnetloc(url, 2)\<close>: after the two slashes, the text up to the first of
      \<open>/\<close>, \<open>?\<close>, \<open>#\<close>, and the rest from that delimiter on.\<close>
  "splitnetloc url =
     (let isdelim = (\<lambda>c. c \<in> set ''/?#'')
      in (takeWhile (\<lambda>c. \<not> isdelim c) (drop 2 url),
          dropWhile (\<lambda>c. \<not> isdelim c) (drop 2 url)))"

definition splitparams :: "string \<Rightarrow> string" where
  \<comment> \<open>The first component of \<open>_splitparams(url)\<close>: the path without the parameters of
      its last segment.\<close>
  "splitparams url =
     (let last_seg = last (split_on CHR ''/'' url);
          before = take (length url - length last_seg) url
      in before @ takeWhile (\<lambda>c. c \<noteq> CHR '';'') last_seg)"

definition unsafe_removed :: "string \<Rightarrow> string" where
  \<comment> \<open>The loop over \<open>_UNSAFE_URL_BYTES_TO_REMOVE\<close> in \<open>urlsplit\<close>: TAB, CR and LF are
      removed wherever they stand.\<close>
  "unsafe_removed s = filter (\<lambda>c. c \<notin> set [CHR 0x09, CHR 0x0D, CHR 0x0A]) s"

definition urlparse :: "string \<Rightarrow> parse_result option" where
  \<comment> \<open>\<open>urllib.parse.urlparse(url)\<close> of Python 3.11, its scheme, netloc and path. Leading
      control characters and spaces are stripped and TAB, CR, LF removed everywhere; then
      the scheme, the netloc after \<open>//\<close>, the fragment, the query and the parameters are
      split off. \<open>None\<close> is ValueError. A netloc with a square bracket raises it unless
      the brackets hold a valid IPv6 or IPvFuture literal; \<open>parse_git_source\<close> fails on
      such a netloc in either case, since no provider host has a bracket, and the model
      gives \<open>None\<close> for both. (On code points below 256 the NFKC check of the netloc
      never raises.)\<close>
  "urlparse url0 =
     (let url1 = dropWhile (\<lambda>c. (of_char c :: nat) \<le> 32) url0;
          url2 = unsafe_removed url1;
          (sch, url3) = split_scheme url2;
          (loc, url4) = (if take 2 url3 = ''//'' then splitnetloc url3 else ('''', url3))
      in if CHR ''['' \<in> set loc \<or> CHR '']'' \<in> set loc then None
         else
           let url5 = takeWhile (\<lambda>c. c \<noteq> CHR ''#'') url4;
               url6 = takeWhile (\<lambda>c. c \<noteq> CHR ''?'') url5;
               url7 = (if sch \<in> set uses_params \<and> CHR '';'' \<in> set url6
                       then splitparams url6 else url6)
           in Some \<lparr>scheme = sch, netloc = loc, path = url7\<rparr>)"

subsection \<open>parse_git_source\<close>

record GitSourceDescriptor =
  repo_url_for_clone :: string
  git_ref :: "string option"
  path_in_repo :: pure_path
  provider_host :: string
  user_or_org :: string

definition provider_hosts :: "string set" where
  \<comment> \<open>The hosts the resolver knows: the values of the alias dictionary, which are also
      the hosts of the three blocks of the URL form.\<close>
  "provider_hosts = {''github.com'', ''gitlab.com'', ''bitbucket.org''}"

definition alias_host :: "string \<Rightarrow> string" where
  \<comment> \<open>The dictionary of aliases with \<open>.get(alias, "")\<close>.\<close>
  "alias_host a =
     (if a = ''gh'' \<or> a = ''github'' then ''github.com''
      else if a = ''gl'' \<or> a = ''gitlab'' then ''gitlab.com''
      else if a = ''bb'' \<or> a = ''bitbucket'' then ''bitbucket.org''
      else '''')"

definition clone_url :: "string \<Rightarrow> string \<Rightarrow> string \<Rightarrow> string" where
  \<comment> \<open>The f-string \<open>https://{host}/{user}/{repo}.git\<close>.\<close>
  "clone_url host user repo = ''https://'' @ host @ ''/'' @ user @ ''/'' @ repo @ ''.git''"

definition alias_form :: "string \<Rightarrow> GitSourceDescriptor option" where
  \<comment> \<open>The first block of \<open>parse_git_source\<close>; \<open>None\<close> when it falls through to the URL
      form.\<close>
  "alias_form git_source_url =
     (let parts = split_on CHR ''/'' git_source_url
      in if length parts \<ge> 3 then
           (let alias = lower (parts ! 0);
                user = parts ! 1;
                repo_and_path = join ''/'' (drop 2 parts);
                host = alias_host alias
            in if host \<noteq> [] \<and> user \<noteq> [] \<and> repo_and_path \<noteq> [] then
                 (let (repo_name, repo_path) = split_first CHR ''/'' repo_and_path
                  in if repo_name \<noteq> [] then
                       Some \<lparr>repo_url_for_clone = clone_url host user repo_name,
                             git_ref = None,
                             path_in_repo = Path repo_path,
                             provider_host = host,
                             user_or_org = user\<rparr>
                     else None)
               else None)
         else None)"

definition github_ref_path :: "string list \<Rightarrow> string option \<times> string list" where
  \<comment> \<open>\<open>git_ref\<close> and \<open>path_parts\<close> of the github.com block.\<close>
  "github_ref_path segs =
     (if length segs > 3 \<and> (segs ! 2 = ''tree'' \<or> segs ! 2 = ''blob'')
      then (Some (segs ! 3), drop 4 segs)
      else if length segs > 2 then (None, drop 2 segs)
      else (None, []))"

definition gitlab_ref_path :: "string list \<Rightarrow> string option \<times> string list" where
  \<comment> \<open>\<open>git_ref\<close> and \<open>path_parts\<close> of the gitlab.com block.\<close>
  "gitlab_ref_path segs =
     (if length segs > 4 \<and> segs ! 2 = ''-'' \<and> (segs ! 3 = ''tree'' \<or> segs ! 3 = ''blob'')
      then (Some (segs ! 4), drop 5 segs)
      else if length segs > 2 then (None, drop 2 segs)
      else (None, []))"

definition bitbucket_ref_path :: "string list \<Rightarrow> string option \<times> string list" where
  \<comment> \<open>\<open>git_ref\<close> and \<open>path_parts\<close> of the bitbucket.org block.\<close>
  "bitbucket_ref_path segs = (None, if length segs > 2 then drop 2 segs else [])"

definition descriptor ::
  "string \<Rightarrow> string list \<Rightarrow> string option \<times> string list \<Rightarrow> GitSourceDescriptor" where
  \<comment> \<open>The \<open>return GitSourceDescriptor(...)\<close> that ends each of the three provider
      blocks, with \<open>user = segs[0]\<close> and \<open>repo = segs[1].removesuffix(".git")\<close>.\<close>
  "descriptor host segs rp =
     \<lparr>repo_url_for_clone = clone_url host (segs ! 0) (removesuffix (segs ! 1) ''.git''),
      git_ref = fst rp,
      path_in_repo = Path (join ''/'' (snd rp)),
      provider_host = host,
      user_or_org = segs ! 0\<rparr>"

definition url_form :: "string \<Rightarrow> GitSourceDescriptor option" where
  \<comment> \<open>The second block of \<open>parse_git_source\<close>; \<open>None\<close> is an exception (BadParameter,
      or ValueError out of \<open>urlparse\<close>).\<close>
  "url_form git_source_url =
     (case urlparse git_source_url of
        None \<Rightarrow> None
      | Some u \<Rightarrow>
          if scheme u = [] \<or> netloc u = [] then None
          else
            let host0 = lower (netloc u);
                host = (if startswith host0 ''www.'' then drop 4 host0 else host0);
                segs = filter (\<lambda>s. s \<noteq> []) (split_on CHR ''/'' (path u))
            in if host = ''github.com'' \<and> length segs \<ge> 2 then
                 Some (descriptor host segs (github_ref_path segs))
               else if host = ''gitlab.com'' \<and> length segs \<ge> 2 then
                 Some (descriptor host segs (gitlab_ref_path segs))
               else if host = ''bitbucket.org'' \<and> length segs \<ge> 2 then
                 Some (descriptor host segs (bitbucket_ref_path segs))
               else None)"

definition parse_git_source :: "string \<Rightarrow> GitSourceDescriptor option" where
  "parse_git_source git_source_url =
     (case alias_form git_source_url of
        Some d \<Rightarrow> Some d
      | None \<Rightarrow> url_form git_source_url)"

section \<open>Text transformations of the file materializer (utils.py, copy_files)\<close>

text \<open>
  A file's content is modelled as the text it decodes to. \<open>read_text\<close> opens the file
  in text mode, which translates every line ending (CR LF and a lone CR) to LF;
  \<open>write_text\<close> writes LF as it is on POSIX.
\<close>

fun read_text :: "string \<Rightarrow> string" where
  \<comment> \<open>\<open>Path.read_text(encoding="utf-8")\<close>: the stored text with universal newlines.\<close>
  "read_text [] = []"
| "read_text [c] = [if c = CHR 0x0D then CHR 0x0A else c]"
| "read_text (c # d # cs) =
     (if c = CHR 0x0D \<and> d = CHR 0x0A then CHR 0x0A # read_text cs
      else if c = CHR 0x0D then CHR 0x0A # read_text (d # cs)
      else c # read_text (d # cs))"

definition write_text :: "string \<Rightarrow> string" where
  \<comment> \<open>\<open>Path.write_text(s, encoding="utf-8")\<close>: what the file holds afterwards.\<close>
  "write_text s = s"

definition is_linebreak :: "char \<Rightarrow> bool" where
  \<comment> \<open>The line boundaries of \<open>str.splitlines\<close> below 256: LF, VT, FF, CR, FS, GS, RS,
      NEL.\<close>
  "is_linebreak c \<longleftrightarrow> c \<in> set [CHR 0x0A, CHR 0x0B, CHR 0x0C, CHR 0x0D,
      CHR 0x1C, CHR 0x1D, CHR 0x1E, CHR 0x85]"

function splitlines :: "string \<Rightarrow> string list" where
  \<comment> \<open>\<open>s.splitlines()\<close>: the lines without their terminators; CR LF is one terminator,
      and a terminator at the very end opens no further line.\<close>
  "splitlines s =
     (if s = [] then []
      else let line = takeWhile (\<lambda>c. \<not> is_linebreak c) s;
               rest = dropWhile (\<lambda>c. \<not> is_linebreak c) s
           in (case rest of
                 [] \<Rightarrow> [line]
               | c # r \<Rightarrow>
                   line # splitlines (if c = CHR 0x0D \<and> take 1 r = [CHR 0x0A] then drop 1 r else r)))"
  by pat_completeness auto
termination
proof (relation "measure length", goal_cases)
  case 1
  show ?case by simp
next
  case (2 s line rest c r)
  have "length (dropWhile (\<lambda>c. \<not> is_linebreak c) s) \<le> length s"
    by (rule length_dropWhile_le)
  moreover from 2 have "dropWhile (\<lambda>c. \<not> is_linebreak c) s = c # r" by simp
  ultimately have "length r < length s" by simp
  then show ?case by auto
qed

declare splitlines.simps [simp del]

definition lstrip :: "string \<Rightarrow> string" where
  \<comment> \<open>\<open>s.lstrip()\<close>\<close>
  "lstrip s = dropWhile isspace s"

definition rstrip_char :: "char \<Rightarrow> string \<Rightarrow> string" where
  \<comment> \<open>\<open>s.rstrip(c)\<close> for one character \<open>c\<close>\<close>
  "rstrip_char c s = rev (dropWhile (\<lambda>x. x = c) (rev s))"

definition kept_lines :: "string \<Rightarrow> string list" where
  \<comment> \<open>The generator expression under \<open>join\<close>: the lines that do not start, after
      leading whitespace, with \<open>#:schema\<close>.\<close>
  "kept_lines content =
     filter (\<lambda>line. \<not> startswith (lstrip line) ''#:schema'') (splitlines content)"

definition sanitize_manifest :: "string \<Rightarrow> string" where
  \<comment> \<open>The \<open>typst.toml\<close> branch of \<open>copy_files\<close>, from the stored source text to the
      stored destination text.\<close>
  "sanitize_manifest stored =
     (let content = read_text stored;
          filtered = join [CHR 0x0A] (kept_lines content)
      in write_text filtered)"

function drop_updirs :: "string \<Rightarrow> string" where
  \<comment> \<open>What follows the longest run of \<open>../\<close> at the start of the text.\<close>
  "drop_updirs s = (if take 3 s = ''../'' then drop_updirs (drop 3 s) else s)"
  by pat_completeness auto
termination
proof (relation "measure length", goal_cases)
  case 1
  show ?case by simp
next
  case (2 s)
  then have "s \<noteq> []" by auto
  then show ?case by simp
qed

declare drop_updirs.simps [simp del]

definition import_match :: "string \<Rightarrow> string \<Rightarrow> (string \<times> string) option" where
  \<comment> \<open>A match of \<open>import_re\<close> at the start of the text: group 2 and the text after the
      match. The pattern is \<open>#import\<close>, whitespace (at least one), a quote, \<open>../\<close> (at
      least once), the name of the entry point, optionally a colon with everything up to
      the next quote (group 2), and a quote. Each greedy part has one way to match: the
      whitespace run and the quote are disjoint, a file name has no slash, so no
      shorter run of \<open>../\<close> lets the name match, and group 2 cannot cross a quote.\<close>
  "import_match entrypoint_name s =
     (if \<not> startswith s ''#import'' then None
      else
        let r1 = drop 7 s; r2 = dropWhile isspace r1
        in if takeWhile isspace r1 = [] \<or> take 1 r2 \<noteq> [CHR 0x22] then None
           else
             let r3 = drop 1 r2; r4 = drop_updirs r3
             in if take 3 r3 \<noteq> ''../'' \<or> \<not> startswith r4 entrypoint_name then None
                else
                  let r5 = drop (length entrypoint_name) r4
                  in if take 1 r5 = [CHR 0x22] then Some ([], drop 1 r5)
                     else if take 1 r5 = '':''
                             \<and> dropWhile (\<lambda>c. c \<noteq> CHR 0x22) r5 \<noteq> []
                     then Some (takeWhile (\<lambda>c. c \<noteq> CHR 0x22) r5,
                                drop 1 (dropWhile (\<lambda>c. c \<noteq> CHR 0x22) r5))
                     else None)"

lemma import_match_shorter:
  "import_match n s = Some (g, rest) \<Longrightarrow> length rest < length s"
proof -
  assume m: "import_match n s = Some (g, rest)"
  have updirs: "length (drop_updirs t) \<le> length t" for t
  proof (induction t rule: drop_updirs.induct)
    case (1 t)
    then show ?case by (subst drop_updirs.simps) (auto split: if_splits)
  qed
  from m have s: "startswith s ''#import''"
    by (auto simp: import_match_def split: if_splits)
  then have "take (length ''#import'') s = ''#import''"
    unfolding startswith_def .
  then have "length (take (length ''#import'') s) = length ''#import''"
    by (rule arg_cong)
  then have "length s \<ge> 7" by simp
  define r2 where "r2 = dropWhile isspace (drop 7 s)"
  define r4 where "r4 = drop_updirs (drop 1 r2)"
  define r5 where "r5 = drop (length n) r4"
  have "length r2 \<le> length (drop 7 s)"
    unfolding r2_def by (rule length_dropWhile_le)
  moreover have "length r4 \<le> length r2"
    unfolding r4_def using updirs [of "drop 1 r2"] by simp
  moreover have "length r5 \<le> length r4" unfolding r5_def by simp
  moreover from m have "rest = drop 1 r5 \<or> rest = drop 1 (dropWhile (\<lambda>c. c \<noteq> CHR 0x22) r5)"
    by (auto simp: import_match_def Let_def r2_def r4_def r5_def split: if_splits)
  then have "length rest \<le> length r5"
    using length_dropWhile_le [of "\<lambda>c. c \<noteq> CHR 0x22" r5] by auto
  ultimately show ?thesis using \<open>length s \<ge> 7\<close> by simp
qed

function import_sub :: "string \<Rightarrow> string \<Rightarrow> string \<Rightarrow> string" where
  \<comment> \<open>\<open>import_re.sub(lambda m: f'#import "{full_package_import}{m.group(2)}"',
      content)\<close>: the text is scanned from the left; a match is replaced and the scan
      goes on after it, any other character is kept.\<close>
  "import_sub entrypoint_name full_package_import [] = []"
| "import_sub entrypoint_name full_package_import (c # cs) =
     (case import_match entrypoint_name (c # cs) of
        Some (g, rest) \<Rightarrow>
          ''#import '' @ [CHR 0x22] @ full_package_import @ g @ [CHR 0x22]
            @ import_sub entrypoint_name full_package_import rest
      | None \<Rightarrow> c # import_sub entrypoint_name full_package_import cs)"
  by pat_completeness auto
termination
  by (relation "measure (\<lambda>(n, f, s). length s)") (auto dest: import_match_shorter)

definition path_name :: "pure_path \<Rightarrow> string" where
  \<comment> \<open>\<open>Path.name\<close>: the last component, empty when there is none.\<close>
  "path_name p = (if names p = [] then [] else last (names p))"

definition has_typ_suffix :: "string \<Rightarrow> bool" where
  \<comment> \<open>\<open>src_path.suffix == ".typ"\<close>: the name ends in \<open>.typ\<close> and has something before
      it (a name that is only \<open>.typ\<close> has no suffix).\<close>
  "has_typ_suffix name \<longleftrightarrow> endswith name ''.typ'' \<and> length name > 4"

definition rewrite_imports :: "string \<Rightarrow> string \<Rightarrow> string \<Rightarrow> string \<Rightarrow> string" where
  \<comment> \<open>The \<open>.typ\<close> branch of \<open>copy_files\<close>, from the stored source text to the stored
      destination text.\<close>
  "rewrite_imports package_import_base package_version package_entrypoint stored =
     (let entrypoint_name = path_name (Path package_entrypoint);
          full_package_import = ''@'' @ package_import_base @ '':'' @ package_version;
          content = read_text stored
      in write_text (import_sub entrypoint_name full_package_import content))"

definition materialize ::
  "string \<Rightarrow> string \<Rightarrow> string \<Rightarrow> string \<Rightarrow> string \<Rightarrow> string" where
  \<comment> \<open>What \<open>copy_files\<close> stores at the destination for a file it does not exclude:
      the sanitized manifest for \<open>typst.toml\<close>, the rewritten text for a \<open>.typ\<close> file,
      the same bytes (\<open>shutil.copy2\<close>) for any other file.\<close>
  "materialize name package_import_base package_version package_entrypoint stored =
     (if name = ''typst.toml'' then sanitize_manifest stored
      else if has_typ_suffix name
        then rewrite_imports package_import_base package_version package_entrypoint stored
      else stored)"

subsection \<open>The example of the specification\<close>

definition self_import :: string where
  \<comment> \<open>The self-import of the example, as it stands in a source file.\<close>
  "self_import = ''#import \"../../main.typ\": *''"

definition package_import :: string where
  \<comment> \<open>What the example expects in its place for package \<open>foo\<close>, version 1.0.0,
      namespace \<open>preview\<close>.\<close>
  "package_import = ''#import \"@preview/foo:1.0.0\": *''"

section \<open>Exclusion patterns (utils.py, should_exclude)\<close>

subsection \<open>fnmatch\<close>

datatype glob_item =
    Star
  | AnyChar
  | Never
  | Lit char
  | CharClass bool "char list" "(char \<times> char) list"

definition bracket_end :: "string \<Rightarrow> nat option" where
  \<comment> \<open>In \<open>fnmatch.translate\<close>, after an opening bracket: the index \<open>j\<close> of the bracket
      that closes the class. A \<open>!\<close> and then a \<open>]\<close> right after the opening bracket
      do not close it. \<open>None\<close> when nothing closes it (the opening bracket is then
      an ordinary character).\<close>
  "bracket_end cs =
     (let j1 = (if take 1 cs = ''!'' then 1 else 0);
          j2 = (if take 1 (drop j1 cs) = '']'' then j1 + 1 else j1);
          tail = drop j2 cs
      in if CHR '']'' \<in> set tail
         then Some (j2 + length (takeWhile (\<lambda>c. c \<noteq> CHR '']'') tail))
         else None)"

function chunks_from :: "nat \<Rightarrow> string \<Rightarrow> string list" where
  \<comment> \<open>The \<open>while True\<close> loop that cuts the class at its range hyphens: \<open>t\<close> is the
      text from \<open>i\<close> on, \<open>k\<close> the distance from \<open>i\<close> at which the search for the next
      hyphen starts. The last element is the final \<open>chunk = pat[i:j]\<close>.\<close>
  "chunks_from k t =
     (if CHR ''-'' \<in> set (drop k t)
      then (let p = k + length (takeWhile (\<lambda>c. c \<noteq> CHR ''-'') (drop k t))
            in take p t # chunks_from 2 (drop (Suc p) t))
      else [t])"
  by pat_completeness auto
termination
proof (relation "measure (\<lambda>(k, t). length t)", goal_cases)
  case 1
  show ?case by simp
next
  case (2 k t p)
  then have "drop k t \<noteq> []" by auto
  then have "t \<noteq> []" by auto
  then show ?case by simp
qed

declare chunks_from.simps [simp del]

definition close_chunks :: "string list \<Rightarrow> string list" where
  \<comment> \<open>\<open>if chunk: chunks.append(chunk) else: chunks[-1] += '-'\<close>\<close>
  "close_chunks cs =
     (if cs \<noteq> [] \<and> last cs = [] \<and> butlast cs \<noteq> []
      then butlast (butlast cs) @ [last (butlast cs) @ ''-'']
      else cs)"

fun drop_empty_ranges :: "string list \<Rightarrow> string list" where
  \<comment> \<open>The loop \<open>for k in range(len(chunks)-1, 0, -1)\<close>: from the right, a range whose
      lower end is above its upper end is dropped with both its ends, and the two
      chunks become one.\<close>
  "drop_empty_ranges [] = []"
| "drop_empty_ranges [a] = [a]"
| "drop_empty_ranges (a # b # bs) =
     (case drop_empty_ranges (b # bs) of
        [] \<Rightarrow> [a]
      | c # cs \<Rightarrow>
          if a \<noteq> [] \<and> c \<noteq> [] \<and> (of_char (last a) :: nat) > of_char (hd c)
          then (butlast a @ tl c) # cs
          else a # c # cs)"

fun chunk_ranges :: "string list \<Rightarrow> (char \<times> char) list" where
  \<comment> \<open>The ranges of the class: from the last character of each chunk to the first of
      the next.\<close>
  "chunk_ranges (a # b # bs) =
     (if a \<noteq> [] \<and> b \<noteq> [] then (last a, hd b) # chunk_ranges (b # bs)
      else chunk_ranges (b # bs))"
| "chunk_ranges _ = []"

definition class_item :: "string \<Rightarrow> glob_item" where
  \<comment> \<open>The regular expression \<open>translate\<close> emits for the class text \<open>stuff\<close>: nothing
      matches when the text left is empty, any character when it is \<open>!\<close>, and else the
      characters and ranges of the chunks, negated when the text starts with \<open>!\<close>.
      Every other character of the class is taken literally (the library escapes
      backslash, hyphens inside a chunk, \<open>&\<close>, \<open>~\<close>, \<open>|\<close> and a leading \<open>^\<close> or
      \<open>[\<close>).\<close>
  "class_item stuff =
     (let chunks = (if CHR ''-'' \<notin> set stuff then [stuff]
                    else drop_empty_ranges
                           (close_chunks (chunks_from (if take 1 stuff = ''!'' then 2 else 1) stuff)))
      in if concat chunks = [] \<and> length chunks \<le> 1 then Never
         else if chunks = [''!''] then AnyChar
         else if take 1 (hd chunks) = ''!''
           then CharClass True (concat (tl (hd chunks) # tl chunks))
                  (chunk_ranges (tl (hd chunks) # tl chunks))
         else CharClass False (concat chunks) (chunk_ranges chunks))"

fun translate :: "string \<Rightarrow> glob_item list" where
  \<comment> \<open>\<open>fnmatch.translate\<close>, as the list of items of the regular expression. (The
      library writes a run of stars as one; the match is the same.)\<close>
  "translate [] = []"
| "translate (c # cs) =
     (if c = CHR ''*'' then Star # translate cs
      else if c = CHR ''?'' then AnyChar # translate cs
      else if c = CHR ''['' then
        (case bracket_end cs of
           None \<Rightarrow> Lit CHR ''['' # translate cs
         | Some j \<Rightarrow> class_item (take j cs) # translate (drop (Suc j) cs))
      else Lit c # translate cs)"

fun item_matches :: "glob_item \<Rightarrow> char \<Rightarrow> bool" where
  "item_matches Star c = True"
| "item_matches AnyChar c = True"
| "item_matches Never c = False"
| "item_matches (Lit x) c = (c = x)"
| "item_matches (CharClass neg cs rs) c =
     ((c \<in> set cs \<or> list_ex (\<lambda>r. (of_char (fst r) :: nat) \<le> of_char c \<and>
                                    (of_char c :: nat) \<le> of_char (snd r)) rs) \<noteq> neg)"

fun glob_match :: "glob_item list \<Rightarrow> string \<Rightarrow> bool" where
  \<comment> \<open>A match of the whole text (the expression ends in \<open>\Z\<close>): a star takes any run
      of characters, any other item one character.\<close>
  "glob_match [] s = (s = [])"
| "glob_match (Star # gs) [] = glob_match gs []"
| "glob_match (Star # gs) (c # cs) = (glob_match gs (c # cs) \<or> glob_match (Star # gs) cs)"
| "glob_match (g # gs) [] = False"
| "glob_match (g # gs) (c # cs) = (item_matches g c \<and> glob_match gs cs)"

definition fnmatch :: "string \<Rightarrow> string \<Rightarrow> bool" where
  \<comment> \<open>\<open>fnmatch.fnmatch(name, pat)\<close> on POSIX, where \<open>normcase\<close> changes nothing.\<close>
  "fnmatch name pat = glob_match (translate pat) name"

subsection \<open>The file system\<close>

text \<open>
  The file system is a tree without symbolic links, and paths are absolute lists of
  components from its root, so that \<open>resolve()\<close> changes nothing.
\<close>

datatype node = File string | Dir "(string \<times> node) list"

type_synonym path = "string list"

fun lookup :: "node \<Rightarrow> path \<Rightarrow> node option" where
  "lookup n [] = Some n"
| "lookup (File content) (c # cs) = None"
| "lookup (Dir es) (c # cs) =
     (case map_of es c of None \<Rightarrow> None | Some n \<Rightarrow> lookup n cs)"

definition is_dir_at :: "node \<Rightarrow> path \<Rightarrow> bool" where
  "is_dir_at fs p = (case lookup fs p of Some (Dir es) \<Rightarrow> True | _ \<Rightarrow> False)"

fun namei :: "node \<Rightarrow> path \<Rightarrow> string list \<Rightarrow> path option" where
  \<comment> \<open>Path resolution by the system, component by component from the directory \<open>cur\<close>:
      an empty component and \<open>.\<close> stay, \<open>..\<close> goes to the parent (the root is its
      own parent), a name goes to the entry of that name; every step needs \<open>cur\<close> to
      be a directory.\<close>
  "namei fs cur [] = Some cur"
| "namei fs cur (c # cs) =
     (if \<not> is_dir_at fs cur then None
      else if c = [] \<or> c = ''.'' then namei fs cur cs
      else if c = ''..'' then namei fs (butlast cur) cs
      else if lookup fs (cur @ [c]) = None then None
      else namei fs (cur @ [c]) cs)"

definition isdir :: "node \<Rightarrow> string \<Rightarrow> bool" where
  \<comment> \<open>\<open>os.path.isdir(s)\<close> for an absolute path string.\<close>
  "isdir fs s =
     (case namei fs [] (split_on CHR ''/'' s) of
        None \<Rightarrow> False
      | Some p \<Rightarrow> is_dir_at fs p)"

definition path_str :: "path \<Rightarrow> string" where
  \<comment> \<open>\<open>str(p)\<close> of an absolute path.\<close>
  "path_str p = ''/'' @ join ''/'' p"

definition os_path_join :: "string \<Rightarrow> string \<Rightarrow> string" where
  \<comment> \<open>\<open>os.path.join(a, b)\<close>\<close>
  "os_path_join a b =
     (if startswith b ''/'' then b
      else if a = [] \<or> endswith a ''/'' then a @ b
      else a @ ''/'' @ b)"

fun common_prefix_length :: "path \<Rightarrow> path \<Rightarrow> nat" where
  "common_prefix_length (x # xs) (y # ys) =
     (if x = y then Suc (common_prefix_length xs ys) else 0)"
| "common_prefix_length _ _ = 0"

definition relpath :: "path \<Rightarrow> path \<Rightarrow> string" where
  \<comment> \<open>\<open>os.path.relpath(p, start)\<close> for absolute normal paths: one \<open>..\<close> for each
      component of \<open>start\<close> after the common prefix, then the rest of \<open>p\<close>; \<open>.\<close> when
      nothing is left.\<close>
  "relpath p start =
     (let i = common_prefix_length start p;
          rel = replicate (length start - i) ''..'' @ drop i p
      in if rel = [] then ''.'' else join ''/'' rel)"

subsection \<open>should_exclude\<close>

definition has_glob_chars :: "string \<Rightarrow> bool" where
  \<comment> \<open>\<open>any(c in pattern for c in "*?[]")\<close>\<close>
  "has_glob_chars pattern \<longleftrightarrow> (\<exists>c \<in> set ''*?[]''. c \<in> set pattern)"

definition pattern_excludes :: "node \<Rightarrow> path \<Rightarrow> string \<Rightarrow> string \<Rightarrow> bool" where
  \<comment> \<open>The body of the loop of \<open>should_exclude\<close> for one pattern: true when it returns
      True.\<close>
  "pattern_excludes fs base_dir rel_path pattern =
     (if fnmatch rel_path pattern then True
      else if endswith pattern ''/''
              \<or> (\<not> has_glob_chars pattern
                  \<and> isdir fs (os_path_join (path_str base_dir) pattern))
        then (let p = rstrip_char CHR ''/'' (rstrip_char CHR ''/'' pattern)
              in rel_path = p \<or> startswith rel_path (p @ ''/''))
      else False)"

definition should_exclude :: "node \<Rightarrow> path \<Rightarrow> string list \<Rightarrow> path \<Rightarrow> bool" where
  "should_exclude fs file_path exclude_patterns base_dir =
     (let rel_path = relpath file_path base_dir
      in list_ex (pattern_excludes fs base_dir rel_path) exclude_patterns)"

section \<open>Walking and copying the tree (utils.py, copy_files)\<close>

fun is_dir_node :: "node \<Rightarrow> bool" where
  "is_dir_node (Dir es) = True"
| "is_dir_node (File content) = False"

function walk :: "path \<Rightarrow> node \<Rightarrow> (path \<times> string list \<times> string list) list" where
  \<comment> \<open>\<open>os.walk(top)\<close>, top down and without following links: for each directory its
      path, the names of its subdirectories and the names of its other entries; nothing
      when \<open>top\<close> is not a directory.\<close>
  "walk top_dir (File content) = []"
| "walk top_dir (Dir es) =
     (top_dir, [n. (n, e) \<leftarrow> es, is_dir_node e], [n. (n, e) \<leftarrow> es, \<not> is_dir_node e])
       # concat (map (\<lambda>(n, e). walk (top_dir @ [n]) e) es)"
  by pat_completeness auto
termination
proof (relation "measure (\<lambda>(top_dir, n). size n)", goal_cases)
  case 1
  show ?case by simp
next
  case (2 top_dir es x n e)
  have "size e < Suc (size_list (size_prod (\<lambda>_. 0) size) es)" if "(n, e) \<in> set es" for es
    using that by (induction es) auto
  with 2 show ?case by simp
qed

definition file_content :: "node \<Rightarrow> path \<Rightarrow> string" where
  \<comment> \<open>The stored content of the file at a path.\<close>
  "file_content fs p = (case lookup fs p of Some (File content) \<Rightarrow> content | _ \<Rightarrow> [])"

definition copy_file ::
  "node \<Rightarrow> path \<Rightarrow> path \<Rightarrow> string list \<Rightarrow> string \<Rightarrow> string \<Rightarrow> string
     \<Rightarrow> path \<Rightarrow> string \<Rightarrow> (path \<times> path \<times> string) list" where
  \<comment> \<open>The body of \<open>for name in files\<close>: nothing for a file that \<open>should_exclude\<close>
      accepts, and else the source path, the destination path and the stored content.\<close>
  "copy_file tree source_dir dest_dir exclude_patterns package_import_base package_version
     package_entrypoint walk_root name =
     (let src_path = walk_root @ [name]
      in if should_exclude tree src_path exclude_patterns source_dir then []
         else [(src_path,
                dest_dir @ drop (length source_dir) src_path,
                materialize name package_import_base package_version package_entrypoint
                  (file_content tree src_path))])"

definition copy_dir ::
  "node \<Rightarrow> path \<Rightarrow> path \<Rightarrow> string list \<Rightarrow> string \<Rightarrow> string \<Rightarrow> string
     \<Rightarrow> path \<times> string list \<times> string list \<Rightarrow> (path \<times> path \<times> string) list" where
  \<comment> \<open>The body of \<open>for root, dirs, files in os.walk(source_dir)\<close>: a directory that is
      the destination or lies under it is skipped with all its files.\<close>
  "copy_dir tree source_dir dest_dir exclude_patterns package_import_base package_version
     package_entrypoint entry =
     (if prefix dest_dir (fst entry) then []
      else concat (map (copy_file tree source_dir dest_dir exclude_patterns package_import_base
                          package_version package_entrypoint (fst entry))
                     (snd (snd entry))))"

definition copy_files ::
  "node \<Rightarrow> path \<Rightarrow> path \<Rightarrow> string list \<Rightarrow> string \<Rightarrow> string \<Rightarrow> string
     \<Rightarrow> (path \<times> path \<times> string) list" where
  \<comment> \<open>\<open>copy_files\<close> as the list of the files it stores, in the order of the walk.
      Everything the function writes lies under the destination, whose directories the
      walk skips, so the walk and the directory tests see the tree as it is at the
      start. Errors of the file system are not modelled.\<close>
  "copy_files tree source_dir dest_dir exclude_patterns package_import_base package_version
     package_entrypoint =
     (case lookup tree source_dir of
        None \<Rightarrow> []
      | Some top_dir \<Rightarrow>
          concat (map (copy_dir tree source_dir dest_dir exclude_patterns package_import_base
                         package_version package_entrypoint)
                    (walk source_dir top_dir)))"

definition valid_name :: "string \<Rightarrow> bool" where
  \<comment> \<open>What the system accepts as the name of a directory entry: not empty, not \<open>.\<close>
      or \<open>..\<close>, and without a slash.\<close>
  "valid_name n \<longleftrightarrow> n \<noteq> [] \<and> n \<noteq> ''.'' \<and> n \<noteq> ''..'' \<and> CHR ''/'' \<notin> set n"

fun valid_tree :: "node \<Rightarrow> bool" where
  \<comment> \<open>What a directory tree of the system satisfies: in every directory the names are
      distinct and valid.\<close>
  "valid_tree (File content) = True"
| "valid_tree (Dir es) =
     (distinct (map fst es) \<and> list_all (\<lambda>ne. valid_name (fst ne) \<and> valid_tree (snd ne)) es)"

fun graft :: "node \<Rightarrow> path \<Rightarrow> node \<Rightarrow> node" where
  \<comment> \<open>The tree with the subtree at an existing path replaced.\<close>
  "graft n [] sub = sub"
| "graft (File content) (c # cs) sub = File content"
| "graft (Dir es) (c # cs) sub =
     Dir (map (\<lambda>(n, e). if n = c then (n, graft e cs sub) else (n, e)) es)"

section \<open>The commands (cli.py)\<close>

datatype error = Exit1 | BadParameter | ReadError

record manifest =
  pkg_name :: "string option"
  pkg_version :: "string option"
  pkg_exclude :: "string list"
  pkg_entrypoint :: "string option"
  pkg_compiler :: "string option"
  tpl_path :: "string option"
  tpl_entrypoint :: "string option"
  tpl_thumbnail :: "string option"

text \<open>
  The fields of \<open>manifest\<close> are the keys the commands read: \<open>package.name\<close>,
  \<open>package.version\<close>, \<open>package.exclude\<close>, \<open>package.entrypoint\<close>,
  \<open>package.compiler\<close>, \<open>template.path\<close>, \<open>template.entrypoint\<close> and
  \<open>template.thumbnail\<close>; \<open>None\<close> is a missing key.

  What a command takes from outside the program: the file system, the working
  directory, the output of \<open>typst --version\<close> (\<open>None\<close> when the call fails), the TOML
  parser (\<open>None\<close> when it raises), the two compiler runs and the clone (each gives the
  file system afterwards, \<open>None\<close> on a non-zero exit status), the temporary directory
  of the clone, the data directory and the number typed at the prompt.
\<close>

record environment =
  filesystem :: node
  working_dir :: path
  typst_version_output :: "string option"
  toml_loads :: "string \<Rightarrow> manifest option"
  compile_template :: "node \<Rightarrow> node option"
  generate_thumbnail :: "node \<Rightarrow> node option"
  git_clone :: "string \<Rightarrow> string option \<Rightarrow> path \<Rightarrow> node option"
  tmpdir :: path
  data_dir :: path
  prompt_choice :: int

fun norm_components :: "path \<Rightarrow> string list \<Rightarrow> path" where
  \<comment> \<open>Components appended to an absolute path and normalised: empty components and
      \<open>.\<close> are dropped, \<open>..\<close> removes the last component.\<close>
  "norm_components cur [] = cur"
| "norm_components cur (c # cs) =
     (if c = [] \<or> c = ''.'' then norm_components cur cs
      else if c = ''..'' then norm_components (butlast cur) cs
      else norm_components (cur @ [c]) cs)"

definition resolve_path :: "path \<Rightarrow> string \<Rightarrow> path" where
  \<comment> \<open>\<open>Path(s).resolve()\<close> in the working directory \<open>cwd\<close>.\<close>
  "resolve_path cwd s =
     norm_components (if startswith s ''/'' then [] else cwd) (split_on CHR ''/'' s)"

definition validate_package_name :: "string \<Rightarrow> path \<Rightarrow> error + unit" where
  "validate_package_name package_name toml_dir =
     (let parent_dir_name = (if toml_dir = [] then [] else last toml_dir)
      in if package_name \<noteq> parent_dir_name then Inl BadParameter else Inr ())"

definition strip :: "string \<Rightarrow> string" where
  \<comment> \<open>\<open>s.strip()\<close>\<close>
  "strip s = rev (dropWhile isspace (rev (dropWhile isspace s)))"

definition get_typst_version :: "environment \<Rightarrow> error + version" where
  "get_typst_version env =
     (case typst_version_output env of
        None \<Rightarrow> Inl Exit1
      | Some out \<Rightarrow>
          let parts = split_ws (strip out)
          in if length parts < 2 then Inl Exit1
             else (case parse_semver (parts ! 1) of
                     None \<Rightarrow> Inl BadParameter
                   | Some v \<Rightarrow> Inr v))"

definition check_compiler :: "environment \<Rightarrow> string option \<Rightarrow> error + unit" where
  \<comment> \<open>The block \<open>if compiler_req:\<close> that \<open>build\<close> and \<open>install\<close> share.\<close>
  "check_compiler env compiler_req =
     (case compiler_req of
        None \<Rightarrow> Inr ()
      | Some req \<Rightarrow>
          if req = [] then Inr ()
          else (case get_typst_version env of
                  Inl e \<Rightarrow> Inl e
                | Inr current \<Rightarrow>
                    if \<not> matches_version_req req current then Inl Exit1 else Inr ()))"

definition read_toml :: "environment \<Rightarrow> node \<Rightarrow> path \<Rightarrow> error + manifest" where
  \<comment> \<open>\<open>read_toml(toml_path)\<close>: the file is opened and parsed; \<open>ReadError\<close> is the
      exception of either step.\<close>
  "read_toml env tree toml_path =
     (case lookup tree toml_path of
        Some (File content) \<Rightarrow>
          (case toml_loads env content of None \<Rightarrow> Inl ReadError | Some cfg \<Rightarrow> Inr cfg)
      | _ \<Rightarrow> Inl ReadError)"

definition build_excludes :: "string list \<Rightarrow> string \<Rightarrow> string list" where
  \<comment> \<open>\<open>package_exclude\<close> after the lines under \<open># Exclude the output directory name
      to avoid recursive copy\<close>.\<close>
  "build_excludes package_exclude output_dir =
     (let out_name = path_name (Path output_dir)
      in if out_name \<notin> set package_exclude then package_exclude @ [out_name]
         else package_exclude)"

definition run_template :: "environment \<Rightarrow> manifest \<Rightarrow> error + node" where
  \<comment> \<open>The template block of \<open>build\<close>: the file system after the compiler runs.\<close>
  "run_template env cfg =
     (let tp = (case tpl_path cfg of None \<Rightarrow> [] | Some s \<Rightarrow> s);
          te = (case tpl_entrypoint cfg of None \<Rightarrow> [] | Some s \<Rightarrow> s);
          th = (case tpl_thumbnail cfg of None \<Rightarrow> [] | Some s \<Rightarrow> s)
      in if tp \<noteq> [] \<and> te \<noteq> [] then
           (case compile_template env (filesystem env) of
              None \<Rightarrow> Inl Exit1
            | Some fs1 \<Rightarrow>
                if th \<noteq> [] then
                  (case generate_thumbnail env fs1 of None \<Rightarrow> Inl Exit1 | Some fs2 \<Rightarrow> Inr fs2)
                else Inr fs1)
         else Inr (filesystem env))"

definition locate_toml :: "node \<Rightarrow> path \<Rightarrow> path option" where
  \<comment> \<open>The block \<open># Resolve toml file\<close> of \<open>build\<close>: the argument when it is a file,
      \<open>typst.toml\<close> in it when it is a directory that has one; \<open>None\<close> is the exit
      with status 1.\<close>
  "locate_toml tree toml_file =
     (if \<not> is_dir_at tree toml_file \<and> lookup tree toml_file \<noteq> None then Some toml_file
      else if is_dir_at tree toml_file \<and> lookup tree (toml_file @ [''typst.toml'']) \<noteq> None
        then Some (toml_file @ [''typst.toml''])
      else None)"

definition build ::
  "environment \<Rightarrow> path \<Rightarrow> string \<Rightarrow> string \<Rightarrow> error + (path \<times> path \<times> string) list" where
  \<comment> \<open>\<open>build(toml_file, output_dir, namespace)\<close>, with \<open>toml_file\<close> already resolved:
      the error that ends the command, or the files \<open>copy_files\<close> stores. Nothing but
      \<open>copy_files\<close> writes to the destination, so an error leaves it untouched.\<close>
  "build env toml_file output_dir namespace =
     (case locate_toml (filesystem env) toml_file of
        None \<Rightarrow> Inl Exit1
      | Some toml_path \<Rightarrow>
          (case read_toml env (filesystem env) toml_path of
             Inl e \<Rightarrow> Inl e
           | Inr cfg \<Rightarrow>
               let toml_dir = butlast toml_path;
                   name = (case pkg_name cfg of None \<Rightarrow> [] | Some s \<Rightarrow> s);
                   version = (case pkg_version cfg of None \<Rightarrow> [] | Some s \<Rightarrow> s);
                   entrypoint =
                     (case pkg_entrypoint cfg of None \<Rightarrow> ''main.typ'' | Some s \<Rightarrow> s)
               in if name = [] \<or> version = [] then Inl Exit1
                  else
                    (case check_compiler env (pkg_compiler cfg) of
                       Inl e \<Rightarrow> Inl e
                     | Inr _ \<Rightarrow>
                         (case validate_package_name name toml_dir of
                            Inl e \<Rightarrow> Inl e
                          | Inr _ \<Rightarrow>
                              (case run_template env cfg of
                                 Inl e \<Rightarrow> Inl e
                               | Inr fs1 \<Rightarrow>
                                   let final_output_dir =
                                         os_path_join (os_path_join output_dir name) version
                                   in Inr (copy_files fs1 toml_dir
                                             (resolve_path (working_dir env) final_output_dir)
                                             (build_excludes (pkg_exclude cfg) output_dir)
                                             (namespace @ ''/'' @ name) version entrypoint))))))"

function rglob :: "string \<Rightarrow> path \<Rightarrow> node \<Rightarrow> path list" where
  \<comment> \<open>\<open>top.rglob(name)\<close>: the paths of the entries of that name in the tree under a
      directory.\<close>
  "rglob name top_dir (File content) = []"
| "rglob name top_dir (Dir es) =
     [top_dir @ [n]. (n, e) \<leftarrow> es, n = name]
       @ concat (map (\<lambda>(n, e). rglob name (top_dir @ [n]) e) es)"
  by pat_completeness auto
termination
proof (relation "measure (\<lambda>(name, top_dir, n). size n)", goal_cases)
  case 1
  show ?case by simp
next
  case (2 name top_dir es x n e)
  have "size e < Suc (size_list (size_prod (\<lambda>_. 0) size) es)" if "(n, e) \<in> set es" for es
    using that by (induction es) auto
  with 2 show ?case by simp
qed

definition find_manifest :: "environment \<Rightarrow> node \<Rightarrow> path \<Rightarrow> error + path" where
  \<comment> \<open>The search of \<open>install\<close> for the manifest: the one in \<open>package_src\<close>, or the
      only one below it, or the one chosen at the prompt.\<close>
  "find_manifest env tree package_src =
     (if lookup tree (package_src @ [''typst.toml'']) \<noteq> None
      then Inr (package_src @ [''typst.toml''])
      else
        let found = (case lookup tree package_src of
                       None \<Rightarrow> []
                     | Some top_dir \<Rightarrow> rglob ''typst.toml'' package_src top_dir)
        in if found = [] then Inl Exit1
           else if length found = 1 then Inr (found ! 0)
           else if prompt_choice env < 1 \<or> prompt_choice env > int (length found) then Inl Exit1
           else Inr (found ! nat (prompt_choice env - 1)))"

definition provider_abbr :: "string \<Rightarrow> string" where
  \<comment> \<open>The dictionary of abbreviations with its default, the first label of the host.\<close>
  "provider_abbr host =
     (if host = ''github.com'' then ''gh''
      else if host = ''gitlab.com'' then ''gl''
      else if host = ''bitbucket.org'' then ''bb''
      else hd (split_on CHR ''.'' host))"

definition install :: "environment \<Rightarrow> string \<Rightarrow> error + (path \<times> path \<times> string) list" where
  \<comment> \<open>\<open>install(git_source)\<close>: the error that ends the command, or the files
      \<open>copy_files\<close> stores.\<close>
  "install env git_source =
     (case parse_git_source git_source of
        None \<Rightarrow> Inl BadParameter
      | Some desc \<Rightarrow>
          let clone_dir = tmpdir env
          in (case git_clone env (repo_url_for_clone desc)
                     (case git_ref desc of None \<Rightarrow> None
                      | Some r \<Rightarrow> if r = [] then None else Some r) clone_dir of
                None \<Rightarrow> Inl Exit1
              | Some tree \<Rightarrow>
                  let package_src0 =
                        norm_components
                          (if root (path_in_repo desc) = [] then clone_dir else [])
                          (names (path_in_repo desc))
                  in (case find_manifest env tree package_src0 of
                        Inl e \<Rightarrow> Inl e
                      | Inr toml_path \<Rightarrow>
                          let package_src = butlast toml_path
                          in (case read_toml env tree toml_path of
                                Inl e \<Rightarrow> Inl e
                              | Inr cfg \<Rightarrow>
                                  let name = (case pkg_name cfg of None \<Rightarrow> [] | Some s \<Rightarrow> s);
                                      version =
                                        (case pkg_version cfg of None \<Rightarrow> [] | Some s \<Rightarrow> s);
                                      entrypoint =
                                        (case pkg_entrypoint cfg of
                                           None \<Rightarrow> ''main.typ'' | Some s \<Rightarrow> s)
                                  in if name = [] \<or> version = [] then Inl Exit1
                                     else
                                       (case check_compiler env (pkg_compiler cfg) of
                                          Inl e \<Rightarrow> Inl e
                                        | Inr _ \<Rightarrow>
                                            let namespace = provider_abbr (provider_host desc)
                                                  @ ''-'' @ user_or_org desc;
                                                final_install_dir =
                                                  os_path_join
                                                    (os_path_join
                                                      (os_path_join
                                                        (path_str (data_dir env @ [''packages'']))
                                                        namespace)
                                                      name)
                                                    version
                                            in Inr (copy_files tree package_src
                                                      (resolve_path [] final_install_dir)
                                                      (pkg_exclude cfg)
                                                      (namespace @ ''/'' @ name) version
                                                      entrypoint))))))"

subsection \<open>An example clone\<close>

definition example_manifest :: manifest where
  \<comment> \<open>A manifest of a package named \<open>foo\<close>.\<close>
  "example_manifest =
     \<lparr>pkg_name = Some ''foo'', pkg_version = Some ''1.0.0'', pkg_exclude = [],
      pkg_entrypoint = None, pkg_compiler = None,
      tpl_path = None, tpl_entrypoint = None, tpl_thumbnail = None\<rparr>"

definition example_tree :: node where
  \<comment> \<open>A file system in which that manifest lies in a directory named \<open>bar\<close>.\<close>
  "example_tree =
     Dir [(''tmp'', Dir [(''clone'', Dir [(''bar'',
       Dir [(''typst.toml'', File ''[package]''), (''lib.typ'', File ''#let x = 1'')])])])]"

definition example_env :: environment where
  \<comment> \<open>An environment in which every clone gives that tree and every manifest parses
      to that manifest.\<close>
  "example_env =
     \<lparr>filesystem = example_tree, working_dir = [''tmp'', ''clone''],
      typst_version_output = Some ''typst 0.12.0'',
      toml_loads = (\<lambda>content. Some example_manifest),
      compile_template = (\<lambda>tree. Some tree), generate_thumbnail = (\<lambda>tree. Some tree),
      git_clone = (\<lambda>url ref clone_dir. Some example_tree),
      tmpdir = [''tmp'', ''clone''], data_dir = [''data''], prompt_choice = 1\<rparr>"

section \<open>Facts about the version engine\<close>

lemma req_loop_constraints:
  "req_loop ts ver = list_all (constraint_holds ver) (constraints ts)"
proof (induction ts ver rule: req_loop.induct)
  case (1 ver)
  show ?case by simp
next
  case (2 t ts ver)
  show ?case
  proof (cases "find_prefix t")
    case (Some ov)
    obtain opr v where ov: "ov = (opr, v)" by (cases ov)
    show ?thesis
    proof (cases "constraint_holds ver (opr, v)")
      case True
      with "2.IH"(4) [OF Some [unfolded ov] refl] Some ov show ?thesis by simp
    next
      case False
      with Some ov show ?thesis by simp
    qed
  next
    case None
    show ?thesis
    proof (cases ts)
      case Nil
      with None show ?thesis by simp
    next
      case (Cons n ts')
      show ?thesis
      proof (cases "t \<in> set operators")
        case inop: True
        show ?thesis
        proof (cases "constraint_holds ver (t, n)")
          case True
          with "2.IH"(2) [OF None Cons inop] None Cons inop show ?thesis by simp
        next
          case False
          with None Cons inop show ?thesis by simp
        qed
      next
        case False
        with "2.IH"(3) [OF None Cons False] None Cons show ?thesis by simp
      qed
    qed
  qed
qed

lemma find_prefix_operator:
  "t \<in> set operators \<Longrightarrow> find_prefix t = Some (t, [])"
  by (auto simp: operators_def find_prefix_def startswith_def)

lemma parse_semver_empty: "parse_semver [] = None"
  by (simp add: parse_semver_def)

lemma bare_operator_fails:
  "t \<in> set operators \<Longrightarrow> req_loop (t # ts) ver = False"
  by (simp add: find_prefix_operator constraint_holds_def parse_semver_empty)

text \<open>
  C1. The claim: a token that is exactly one of the seven operators, followed by its
  operand (\<open>> 1.2.3\<close>), is consumed with the operand as one constraint and evaluates
  like the fused form \<open>>1.2.3\<close>. The code has a branch for it and never takes it: a
  token that is an operator also starts with that operator, so the prefix loop sets
  \<open>op\<close> with an empty operand, \<open>parse_semver\<close> fails on the empty string, and the
  requirement is false for every version. At version 2.0.0 the fused form holds and the
  separated form does not; the pairs recognised in the separated form are the operator
  with an empty operand and the version with an empty operand.
\<close>

theorem separated_operator_never_matches:
  "matches_version_req ''>1.2.3'' (2, 0, 0) \<and>
   \<not> matches_version_req ''> 1.2.3'' (2, 0, 0) \<and>
   (\<forall>ver. \<not> matches_version_req ''> 1.2.3'' ver) \<and>
   constraints (split_ws ''> 1.2.3'') = [(''>'', '''')] \<and>
   constraints (split_ws ''>1.2.3'') = [(''>'', ''1.2.3'')]"
proof -
  have toks: "split_ws ''> 1.2.3'' = [''>'', ''1.2.3'']"
    by code_simp
  have "''>'' \<in> set operators"
    by (simp add: operators_def)
  then have "\<not> req_loop (''>'' # [''1.2.3'']) ver" for ver
    using bare_operator_fails [of "''>''" "[''1.2.3'']" ver] by blast
  then have all: "\<forall>ver. \<not> matches_version_req ''> 1.2.3'' ver"
    by (simp add: matches_version_req_def toks)
  have fused: "matches_version_req ''>1.2.3'' (2, 0, 0)"
    by code_simp
  have c1: "constraints (split_ws ''> 1.2.3'') = [(''>'', '''')]"
    by code_simp
  have c2: "constraints (split_ws ''>1.2.3'') = [(''>'', ''1.2.3'')]"
    by code_simp
  from all fused c1 c2 show ?thesis by blast
qed

text \<open>
  C7. Constraint evaluation is the conjunction over all the (operator, operand) pairs
  the loop recognises, each pair holding when its operand parses and the comparison of
  the version with it satisfies the operator; the empty requirement matches every
  version; \<open>>=0.12.0 <0.13.0\<close> matches 0.12.5 and does not match 0.13.0.
\<close>

theorem matches_is_conjunction:
  "matches_version_req req ver = list_all (constraint_holds ver) (constraints (split_ws req)) \<and>
   matches_version_req '''' ver \<and>
   matches_version_req ''>=0.12.0 <0.13.0'' (0, 12, 5) \<and>
   \<not> matches_version_req ''>=0.12.0 <0.13.0'' (0, 13, 0)"
proof -
  have "matches_version_req req ver =
          list_all (constraint_holds ver) (constraints (split_ws req))"
    by (cases "split_ws req = []")
       (simp_all add: matches_version_req_def req_loop_constraints)
  moreover have "split_ws '''' = []"
    by (simp add: split_ws.simps)
  then have "matches_version_req '''' ver"
    by (simp add: matches_version_req_def)
  moreover have "matches_version_req ''>=0.12.0 <0.13.0'' (0, 12, 5)"
    by code_simp
  moreover have "\<not> matches_version_req ''>=0.12.0 <0.13.0'' (0, 13, 0)"
    by code_simp
  ultimately show ?thesis by blast
qed

theorem matches_is_conjunction_witness:
  "matches_version_req ''>=1.0.0 junk !=1.5.0'' (1, 4, 0) =
     list_all (constraint_holds (1, 4, 0)) [(''>='', ''1.0.0''), (''!='', ''1.5.0'')] \<and>
   matches_version_req ''>=1.0.0 junk !=1.5.0'' (1, 4, 0)"
proof -
  have "constraints (split_ws ''>=1.0.0 junk !=1.5.0'') =
          [(''>='', ''1.0.0''), (''!='', ''1.5.0'')]"
    by code_simp
  moreover have "matches_version_req ''>=1.0.0 junk !=1.5.0'' (1, 4, 0)"
    by code_simp
  ultimately show ?thesis
    using matches_is_conjunction [of "''>=1.0.0 junk !=1.5.0''" "(1, 4, 0)"] by simp
qed

section \<open>Facts about git source resolution\<close>

lemma alias_host_cases:
  "alias_host a = [] \<or> alias_host a \<in> provider_hosts"
  by (simp add: alias_host_def provider_hosts_def)

lemma urlparse_clone_url:
  assumes "host \<in> provider_hosts"
  shows "\<exists>u. urlparse (clone_url host user repo) = Some u \<and> scheme u = ''https'' \<and> netloc u = host"
  using assms
  by (auto simp: provider_hosts_def urlparse_def unsafe_removed_def clone_url_def
      split_scheme_def splitnetloc_def
      scheme_chars_def isalpha_ascii_def lower_def lower_char_def Let_def split: prod.splits)

lemma alias_form_shape:
  assumes "alias_form s = Some d"
  shows "provider_host d \<in> provider_hosts \<and> git_ref d = None \<and>
         (\<exists>repo. repo_url_for_clone d = clone_url (provider_host d) (user_or_org d) repo)"
  using assms alias_host_cases [of "lower (split_on CHR ''/'' s ! 0)"]
  by (auto simp: alias_form_def Let_def split: if_splits prod.splits)

lemma ref_path_subset:
  "set (snd (github_ref_path segs)) \<subseteq> set segs"
  "set (snd (gitlab_ref_path segs)) \<subseteq> set segs"
  "set (snd (bitbucket_ref_path segs)) \<subseteq> set segs"
  by (auto simp: github_ref_path_def gitlab_ref_path_def bitbucket_ref_path_def
      dest: in_set_dropD)

lemma url_form_cases:
  assumes "url_form s = Some d"
  obtains u host rp where "urlparse s = Some u"
    and "host \<in> provider_hosts"
    and "d = descriptor host (filter (\<lambda>s. s \<noteq> []) (split_on CHR ''/'' (path u))) rp"
    and "set (snd rp) \<subseteq> set (filter (\<lambda>s. s \<noteq> []) (split_on CHR ''/'' (path u)))"
proof -
  from assms obtain u where u: "urlparse s = Some u"
    by (auto simp: url_form_def split: option.splits)
  define segs where "segs = filter (\<lambda>s. s \<noteq> []) (split_on CHR ''/'' (path u))"
  from assms u have
    "d = descriptor ''github.com'' segs (github_ref_path segs) \<or>
     d = descriptor ''gitlab.com'' segs (gitlab_ref_path segs) \<or>
     d = descriptor ''bitbucket.org'' segs (bitbucket_ref_path segs)"
    by (simp add: url_form_def Let_def segs_def [symmetric] split: if_splits)
  then show thesis
    using that [OF u, of _ "github_ref_path segs"] that [OF u, of _ "gitlab_ref_path segs"]
      that [OF u, of _ "bitbucket_ref_path segs"] ref_path_subset [of segs]
    by (auto simp: provider_hosts_def segs_def)
qed

lemma url_form_shape:
  assumes "url_form s = Some d"
  shows "provider_host d \<in> provider_hosts \<and>
         (\<exists>repo. repo_url_for_clone d = clone_url (provider_host d) (user_or_org d) repo)"
  using assms by (elim url_form_cases) (auto simp: descriptor_def)

lemma split_on_nonempty: "split_on c s \<noteq> []"
  by (induction s) (simp_all add: Let_def)

lemma hd_split_on: "hd (split_on c s) = takeWhile (\<lambda>x. x \<noteq> c) s"
  by (induction s) (simp_all add: Let_def)

lemma split_on_append_sep:
  "c \<notin> set a \<Longrightarrow> split_on c (a @ c # rest) = a # split_on c rest"
  by (induction a) (auto simp: Let_def)

lemma split_on_free: "c \<notin> set a \<Longrightarrow> split_on c a = [a]"
  by (induction a) (auto simp: Let_def)

lemma split_on_elem_free: "x \<in> set (split_on c s) \<Longrightarrow> c \<notin> set x"
proof (induction s arbitrary: x)
  case Nil
  then show ?case by simp
next
  case (Cons a s)
  obtain w ws where r: "split_on c s = w # ws"
    using split_on_nonempty [of c s] by (cases "split_on c s") auto
  show ?case
  proof (cases "a = c")
    case True
    with Cons show ?thesis by (auto simp: Let_def)
  next
    case False
    with Cons.prems r have "x = a # w \<or> x \<in> set ws" by (auto simp: Let_def)
    moreover have "c \<notin> set w" using Cons.IH [of w] r by simp
    moreover have "x \<in> set ws \<Longrightarrow> c \<notin> set x" using Cons.IH [of x] r by simp
    ultimately show ?thesis using False by auto
  qed
qed

lemma join_split_on: "join [c] (split_on c s) = s"
proof (induction s)
  case Nil
  show ?case by simp
next
  case (Cons a s)
  obtain w ws where r: "split_on c s = w # ws"
    using split_on_nonempty [of c s] by (cases "split_on c s") auto
  show ?case
  proof (cases "a = c")
    case True
    with Cons r show ?thesis by (simp add: Let_def)
  next
    case False
    with Cons r show ?thesis by (cases ws) (simp_all add: Let_def)
  qed
qed

lemma join_Cons: "join sep (x # xs) = (if xs = [] then x else x @ sep @ join sep xs)"
  by (cases xs) simp_all

lemma split_on_join:
  "xs \<noteq> [] \<Longrightarrow> \<forall>x \<in> set xs. c \<notin> set x \<Longrightarrow> split_on c (join [c] xs) = xs"
proof (induction xs)
  case Nil
  then show ?case by simp
next
  case (Cons x xs)
  show ?case
  proof (cases xs)
    case Nil
    with Cons.prems show ?thesis by (simp add: split_on_free)
  next
    case (Cons y ys)
    with Cons.prems Cons.IH show ?thesis
      by (simp add: split_on_append_sep)
  qed
qed

lemma in_split_on_sublist: "x \<in> set (split_on c s) \<Longrightarrow> sublist x s"
proof (induction s arbitrary: x)
  case Nil
  then show ?case by simp
next
  case (Cons a s)
  obtain w ws where r: "split_on c s = w # ws"
    using split_on_nonempty [of c s] by (cases "split_on c s") auto
  have w: "prefix w s"
    using hd_split_on [of c s] r by (simp add: takeWhile_is_prefix)
  show ?case
  proof (cases "a = c")
    case True
    with Cons show ?thesis by (auto simp: Let_def sublist_Cons_right)
  next
    case False
    with Cons.prems r have "x = a # w \<or> x \<in> set ws" by (auto simp: Let_def)
    then show ?thesis
    proof
      assume "x = a # w"
      with w show ?thesis by (simp add: prefix_imp_sublist)
    next
      assume "x \<in> set ws"
      with Cons.IH [of x] r show ?thesis by (simp add: sublist_Cons_right)
    qed
  qed
qed

lemma lower_char_letter:
  "lower_char c \<in> set ''abcdefghijklmnopqrstuvwxyz'' \<Longrightarrow> 65 \<le> (of_char c :: nat)"
proof (cases "lower_char c = c")
  case True
  assume "lower_char c \<in> set ''abcdefghijklmnopqrstuvwxyz''"
  with True have "c \<in> set ''abcdefghijklmnopqrstuvwxyz''" by simp
  then show ?thesis by auto
next
  case False
  then show ?thesis
    by (auto simp: lower_char_def Let_def split: if_splits)
qed

lemma alias_chars:
  assumes "alias_host (lower a) \<noteq> []"
  shows "a \<noteq> [] \<and> (\<forall>c \<in> set a. 65 \<le> (of_char c :: nat))"
proof -
  from assms have cases: "lower a \<in> {''gh'', ''github'', ''gl'', ''gitlab'', ''bb'', ''bitbucket''}"
    by (auto simp: alias_host_def split: if_splits)
  then have "a \<noteq> []" by (auto simp: lower_def)
  moreover have "65 \<le> (of_char c :: nat)" if "c \<in> set a" for c
  proof -
    from that have "lower_char c \<in> set (lower a)" by (simp add: lower_def)
    with cases have "lower_char c \<in> set ''abcdefghijklmnopqrstuvwxyz''" by auto
    then show ?thesis by (rule lower_char_letter)
  qed
  ultimately show ?thesis by blast
qed

lemma urlparse_scheme:
  "urlparse s = Some u \<Longrightarrow>
   scheme u = fst (split_scheme (unsafe_removed
                                   (dropWhile (\<lambda>c. (of_char c :: nat) \<le> 32) s)))"
  by (auto simp: urlparse_def Let_def split: prod.splits if_splits)

lemma url_form_alias_fails:
  assumes "alias_host (lower (hd (split_on CHR ''/'' s))) \<noteq> []"
  shows "url_form s = None"
proof -
  define a where "a = takeWhile (\<lambda>x. x \<noteq> CHR ''/'') s"
  define rest where "rest = dropWhile (\<lambda>x. x \<noteq> CHR ''/'') s"
  define f where "f = (\<lambda>c. c \<notin> set [CHR 0x09, CHR 0x0D, CHR 0x0A])"
  have s: "s = a @ rest" by (simp add: a_def rest_def)
  from assms have "alias_host (lower a) \<noteq> []" by (simp add: hd_split_on a_def)
  then have a: "a \<noteq> []" and big: "\<forall>c \<in> set a. 65 \<le> (of_char c :: nat)"
    using alias_chars by blast+
  from a big have "\<not> (of_char (hd a) :: nat) \<le> 32"
    by (cases a) auto
  with a have url1: "dropWhile (\<lambda>c. (of_char c :: nat) \<le> 32) s = s"
    by (cases a) (simp_all add: s)
  from big have nocolon: "CHR '':'' \<notin> set a" by auto
  then have nocolon': "CHR '':'' \<notin> set (filter f a)" by simp
  have "fst (split_scheme (filter f s)) = []"
  proof (cases rest)
    case Nil
    with nocolon s show ?thesis by (simp add: split_scheme_def Let_def)
  next
    case (Cons r rest')
    then have "r = CHR ''/''"
      using hd_dropWhile [of "\<lambda>x. x \<noteq> CHR ''/''" s] by (simp add: rest_def)
    with Cons s have fs: "filter f s = filter f a @ CHR ''/'' # filter f rest'"
      by (simp add: f_def)
    have "takeWhile (\<lambda>c. c \<noteq> CHR '':'') (filter f s) =
            filter f a @ CHR ''/'' # takeWhile (\<lambda>c. c \<noteq> CHR '':'') (filter f rest')"
      unfolding fs
      by (subst takeWhile_append2) (use nocolon in auto)
    then have "CHR ''/'' \<in> set (takeWhile (\<lambda>c. c \<noteq> CHR '':'') (filter f s))" by simp
    moreover have "CHR ''/'' \<notin> scheme_chars" by (simp add: scheme_chars_def)
    ultimately show ?thesis by (auto simp: split_scheme_def Let_def)
  qed
  with url1 have "scheme u = []" if "urlparse s = Some u" for u
    using urlparse_scheme [OF that] by (simp add: f_def unsafe_removed_def)
  then show ?thesis
    by (simp add: url_form_def split: option.splits)
qed

lemma split_first_join:
  assumes "CHR ''/'' \<notin> set p"
  shows "split_first CHR ''/'' (join ''/'' (p # ps)) = (p, join ''/'' ps)"
proof (cases ps)
  case Nil
  have tw: "takeWhile (\<lambda>x. x \<noteq> CHR ''/'') p = p"
    by (rule takeWhile_eq_all_conv [THEN iffD2]) (use assms in blast)
  have dw: "dropWhile (\<lambda>x. x \<noteq> CHR ''/'') p = []"
    by (rule dropWhile_eq_Nil_conv [THEN iffD2]) (use assms in blast)
  show ?thesis
    unfolding split_first_def Nil join.simps tw dw by simp
next
  case (Cons q qs)
  have "takeWhile (\<lambda>x. x \<noteq> CHR ''/'') (p @ CHR ''/'' # join ''/'' (q # qs)) = p"
    by (subst takeWhile_append2) (use assms in auto)
  moreover have "dropWhile (\<lambda>x. x \<noteq> CHR ''/'') (p @ CHR ''/'' # join ''/'' (q # qs))
                   = CHR ''/'' # join ''/'' (q # qs)"
    by (subst dropWhile_append2) (use assms in auto)
  ultimately show ?thesis using Cons by (simp add: split_first_def)
qed

lemma alias_form_wellformed:
  assumes len: "length (split_on CHR ''/'' s) \<ge> 3"
    and host: "alias_host (lower (split_on CHR ''/'' s ! 0)) \<noteq> []"
    and user: "split_on CHR ''/'' s ! 1 \<noteq> []"
    and repo: "split_on CHR ''/'' s ! 2 \<noteq> []"
  shows "alias_form s =
           Some \<lparr>repo_url_for_clone =
                   clone_url (alias_host (lower (split_on CHR ''/'' s ! 0)))
                     (split_on CHR ''/'' s ! 1) (split_on CHR ''/'' s ! 2),
                 git_ref = None,
                 path_in_repo = Path (join ''/'' (drop 3 (split_on CHR ''/'' s))),
                 provider_host = alias_host (lower (split_on CHR ''/'' s ! 0)),
                 user_or_org = split_on CHR ''/'' s ! 1\<rparr>"
proof -
  define parts where "parts = split_on CHR ''/'' s"
  from len have d2: "drop 2 parts = parts ! 2 # drop 3 parts"
    unfolding parts_def
    using Cons_nth_drop_Suc [of 2 "split_on CHR ''/'' s"] by (simp add: numeral_3_eq_3)
  from len have "parts ! 2 \<in> set parts" by (simp add: parts_def)
  then have free: "CHR ''/'' \<notin> set (parts ! 2)"
    unfolding parts_def by (rule split_on_elem_free)
  have sf: "split_first CHR ''/'' (join ''/'' (drop 2 parts)) = (parts ! 2, join ''/'' (drop 3 parts))"
    unfolding d2 using free by (rule split_first_join)
  from repo have ne: "join ''/'' (drop 2 parts) \<noteq> []"
    unfolding d2 by (simp add: join_Cons parts_def)
  show ?thesis
    using len host user repo sf ne
    by (simp add: alias_form_def Let_def parts_def [symmetric])
qed

lemma sublist_trans: "sublist a b \<Longrightarrow> sublist b c \<Longrightarrow> sublist a (c :: 'a list)"
  by (rule sublist_order.order_trans)

lemma sublist_filter:
  assumes "sublist xs s" and "\<forall>x \<in> set xs. P x"
  shows "sublist xs (filter P s)"
proof -
  from assms(1) obtain a b where "s = a @ xs @ b" by (auto simp: sublist_def)
  moreover from assms(2) have "filter P xs = xs" by (simp add: filter_id_conv)
  ultimately have "filter P s = filter P a @ xs @ filter P b" by simp
  then show ?thesis by (simp add: sublist_def) blast
qed

lemma join_drop_suffix: "suffix (join [c] (drop n xs)) (join [c] xs)"
proof (induction xs arbitrary: n)
  case Nil
  show ?case by simp
next
  case (Cons x xs)
  show ?case
  proof (cases n)
    case 0
    then show ?thesis by simp
  next
    case (Suc m)
    have "suffix (join [c] xs) (join [c] (x # xs))"
      by (cases xs) (simp_all add: suffix_def)
    with Cons.IH [of m] Suc show ?thesis
      by (simp del: join.simps)
  qed
qed

lemma names_Path_sublist:
  assumes "x \<in> set (names (Path t))"
  shows "sublist x t"
proof -
  from assms obtain k where "x \<in> set (split_on CHR ''/'' (drop k t))"
    by (auto simp: Path_def Let_def)
  then have "sublist x (drop k t)" by (rule in_split_on_sublist)
  then show ?thesis using sublist_drop [of k t] by (rule sublist_trans)
qed

lemma Path_join_segments:
  assumes "\<forall>p \<in> set pp. p \<noteq> [] \<and> CHR ''/'' \<notin> set p"
  shows "names (Path (join ''/'' pp)) = filter (\<lambda>x. x \<noteq> ''.'') pp"
proof (cases pp)
  case Nil
  then show ?thesis by (simp add: Path_def)
next
  case (Cons p ps)
  with assms obtain c cs where p: "p = c # cs" and c: "c \<noteq> CHR ''/''"
    by (cases p) auto
  have "take 1 (join ''/'' pp) = [c]"
    unfolding Cons p by (cases ps) simp_all
  with c have r: "take 1 (join ''/'' pp) \<noteq> ''/''" by simp
  have "split_on CHR ''/'' (join ''/'' pp) = pp"
    using split_on_join [of pp "CHR ''/''"] assms Cons by simp
  with r have "names (Path (join ''/'' pp)) = filter (\<lambda>x. x \<noteq> [] \<and> x \<noteq> ''.'') pp"
    by (simp add: Path_def)
  also have "\<dots> = filter (\<lambda>x. x \<noteq> ''.'') pp"
    using assms by (intro filter_cong) auto
  finally show ?thesis .
qed

lemma last_split_on_suffix: "suffix (last (split_on c s)) s"
proof (induction s)
  case Nil
  show ?case by simp
next
  case (Cons a s)
  obtain w ws where r: "split_on c s = w # ws"
    using split_on_nonempty [of c s] by (cases "split_on c s") auto
  show ?case
  proof (cases ws)
    case Nil
    with r have ws: "split_on c s = [w]" by simp
    have "w = s" using join_split_on [of c s] ws by simp
    with ws show ?thesis by (auto simp: Let_def suffix_Cons)
  next
    case (Cons v vs)
    with r Cons.IH show ?thesis by (auto simp: Let_def suffix_Cons)
  qed
qed

lemma splitparams_prefix: "prefix (splitparams t) t"
proof -
  define l where "l = last (split_on CHR ''/'' t)"
  have "suffix l t" unfolding l_def by (rule last_split_on_suffix)
  then have t: "t = take (length t - length l) t @ l" by (rule suffix_take)
  have "prefix (take (length t - length l) t @ takeWhile (\<lambda>c. c \<noteq> CHR '';'') l)
               (take (length t - length l) t @ l)"
    by (simp add: takeWhile_is_prefix)
  with t show ?thesis by (simp add: splitparams_def Let_def l_def [symmetric])
qed

lemma urlparse_path_sublist:
  assumes "urlparse s = Some u"
  shows "sublist (path u) (unsafe_removed s)"
proof -
  define url1 where "url1 = dropWhile (\<lambda>c. (of_char c :: nat) \<le> 32) s"
  define url2 where "url2 = unsafe_removed url1"
  define url3 where "url3 = snd (split_scheme url2)"
  define url4 where "url4 = (if take 2 url3 = ''//'' then snd (splitnetloc url3) else url3)"
  define url5 where "url5 = takeWhile (\<lambda>c. c \<noteq> CHR ''#'') url4"
  define url6 where "url6 = takeWhile (\<lambda>c. c \<noteq> CHR ''?'') url5"
  have "suffix url1 s" unfolding url1_def by (rule suffix_dropWhile)
  then have s2: "sublist url2 (unsafe_removed s)"
    unfolding url2_def unsafe_removed_def by (intro suffix_imp_sublist filter_mono_suffix)
  have s3: "sublist url3 url2"
    unfolding url3_def by (simp add: split_scheme_def Let_def)
  have s4: "sublist url4 url3"
    unfolding url4_def by (simp add: splitnetloc_def Let_def sublist_trans [OF sublist_dropWhile sublist_drop])
  have s5: "sublist url5 url4" unfolding url5_def by simp
  have s6: "sublist url6 url5" unfolding url6_def by simp
  from assms have "path u = url6 \<or> path u = splitparams url6"
    by (auto simp: urlparse_def Let_def url1_def url2_def url3_def url4_def url5_def url6_def
        split: prod.splits if_splits)
  then have "sublist (path u) url6"
    using splitparams_prefix [of url6] by auto
  then show ?thesis
    using s6 s5 s4 s3 s2 by (blast intro: sublist_trans)
qed

lemma alias_form_dotdot:
  assumes "alias_form s = Some d" and "x \<in> set (names (path_in_repo d))"
  shows "sublist x s"
proof -
  define t where "t = join ''/'' (drop 2 (split_on CHR ''/'' s))"
  from assms(1) have "path_in_repo d = Path (snd (split_first CHR ''/'' t))"
    by (auto simp: alias_form_def Let_def t_def split: if_splits prod.splits)
  with assms(2) have "sublist x (snd (split_first CHR ''/'' t))"
    by (simp add: names_Path_sublist)
  moreover have "sublist (snd (split_first CHR ''/'' t)) t"
    by (simp add: split_first_def sublist_trans [OF sublist_drop sublist_dropWhile])
  moreover have "sublist t s"
    unfolding t_def
    using join_drop_suffix [of "CHR ''/''" 2 "split_on CHR ''/'' s"]
    by (simp add: join_split_on)
  ultimately show ?thesis by (blast intro: sublist_trans)
qed

lemma url_form_dotdot:
  assumes "url_form s = Some d" and "x \<in> set (names (path_in_repo d))"
  shows "sublist x (unsafe_removed s)"
proof -
  from assms(1) obtain u host rp where u: "urlparse s = Some u"
    and d: "d = descriptor host (filter (\<lambda>s. s \<noteq> []) (split_on CHR ''/'' (path u))) rp"
    and sub: "set (snd rp) \<subseteq> set (filter (\<lambda>s. s \<noteq> []) (split_on CHR ''/'' (path u)))"
    by (rule url_form_cases)
  from sub have "\<forall>p \<in> set (snd rp). p \<noteq> [] \<and> CHR ''/'' \<notin> set p"
    by (auto dest: split_on_elem_free)
  then have "names (Path (join ''/'' (snd rp))) = filter (\<lambda>x. x \<noteq> ''.'') (snd rp)"
    by (rule Path_join_segments)
  with assms(2) d sub have "x \<in> set (split_on CHR ''/'' (path u))"
    by (auto simp: descriptor_def)
  then have "sublist x (path u)" by (rule in_split_on_sublist)
  then show ?thesis
    using urlparse_path_sublist [OF u] by (rule sublist_trans)
qed

lemma parse_git_source_dotdot:
  assumes "parse_git_source s = Some d" and "''..'' \<in> set (names (path_in_repo d))"
  shows "sublist ''..'' (unsafe_removed s)"
proof (cases "alias_form s")
  case (Some d')
  with assms have "sublist ''..'' s"
    by (auto simp: parse_git_source_def intro: alias_form_dotdot)
  then show ?thesis
    unfolding unsafe_removed_def by (rule sublist_filter) simp
next
  case None
  with assms show ?thesis
    by (auto simp: parse_git_source_def intro: url_form_dotdot)
qed

text \<open>
  C2. The claim: on every input on which resolution succeeds, the host embedded in the
  clone URL equals the provider host, and the path-in-repo has no \<open>..\<close> component, in
  the alias form and in the URL form. The second half fails: neither form looks at the
  segments it copies into the path, so a \<open>..\<close> segment after the repository comes out
  as a component of the path.
\<close>

theorem path_in_repo_keeps_dotdot:
  "parse_git_source ''gh/acme/widgets/../x'' =
     Some \<lparr>repo_url_for_clone = ''https://github.com/acme/widgets.git'', git_ref = None,
           path_in_repo = \<lparr>root = [], names = [''..'', ''x'']\<rparr>,
           provider_host = ''github.com'', user_or_org = ''acme''\<rparr> \<and>
   parse_git_source ''https://github.com/acme/widgets/../x'' =
     Some \<lparr>repo_url_for_clone = ''https://github.com/acme/widgets.git'', git_ref = None,
           path_in_repo = \<lparr>root = [], names = [''..'', ''x'']\<rparr>,
           provider_host = ''github.com'', user_or_org = ''acme''\<rparr>"
  by code_simp

text \<open>
  C2, amended. On every input on which resolution succeeds, the provider host is one of
  the three known hosts and the clone URL, parsed as a URL, has scheme \<open>https\<close> and
  that host as its netloc. The path-in-repo has a \<open>..\<close> component only when the
  input, with TAB, CR and LF removed, has two dots in a row.
\<close>

theorem clone_url_host_is_provider_host:
  assumes "parse_git_source s = Some d"
  shows "provider_host d \<in> provider_hosts \<and>
         (\<exists>u. urlparse (repo_url_for_clone d) = Some u \<and> scheme u = ''https'' \<and>
              netloc u = provider_host d) \<and>
         (\<not> sublist ''..'' (unsafe_removed s) \<longrightarrow> ''..'' \<notin> set (names (path_in_repo d)))"
proof -
  from assms have shape: "provider_host d \<in> provider_hosts \<and>
      (\<exists>repo. repo_url_for_clone d = clone_url (provider_host d) (user_or_org d) repo)"
    using alias_form_shape [of s d] url_form_shape [of s d]
    by (auto simp: parse_git_source_def split: option.splits)
  then have "\<exists>u. urlparse (repo_url_for_clone d) = Some u \<and> scheme u = ''https'' \<and>
                 netloc u = provider_host d"
    using urlparse_clone_url [of "provider_host d" "user_or_org d"] by auto
  with shape parse_git_source_dotdot [OF assms] show ?thesis by blast
qed

theorem clone_url_host_is_provider_host_witness:
  "parse_git_source ''https://www.GitHub.com/acme/widgets.git/tree/v2/pkg'' =
     Some \<lparr>repo_url_for_clone = ''https://github.com/acme/widgets.git'', git_ref = Some ''v2'',
           path_in_repo = \<lparr>root = [], names = [''pkg'']\<rparr>,
           provider_host = ''github.com'', user_or_org = ''acme''\<rparr> \<and>
   \<not> sublist ''..'' (unsafe_removed ''https://www.GitHub.com/acme/widgets.git/tree/v2/pkg'') \<and>
   (\<exists>u. urlparse ''https://github.com/acme/widgets.git'' = Some u \<and> scheme u = ''https'' \<and>
        netloc u = ''github.com'')"
proof -
  have p: "parse_git_source ''https://www.GitHub.com/acme/widgets.git/tree/v2/pkg'' =
     Some \<lparr>repo_url_for_clone = ''https://github.com/acme/widgets.git'', git_ref = Some ''v2'',
           path_in_repo = \<lparr>root = [], names = [''pkg'']\<rparr>,
           provider_host = ''github.com'', user_or_org = ''acme''\<rparr>"
    by code_simp
  have n: "\<not> sublist ''..'' (unsafe_removed ''https://www.GitHub.com/acme/widgets.git/tree/v2/pkg'')"
    by code_simp
  from clone_url_host_is_provider_host [OF p] p n show ?thesis by simp
qed

text \<open>
  C8. The alias-form source \<open>gh/acme/widgets/sub/dir\<close> resolves to the clone URL
  \<open>https://github.com/acme/widgets.git\<close>, no ref and the path \<open>sub/dir\<close>. In
  general: an input of at least three segments whose first segment is an alias (in any
  case) and whose owner and repository segments are not empty resolves, with no ref, to
  the clone URL of that host, owner and repository and to the remaining segments as
  path; and whenever the first segment of an input is an alias, a successful resolution
  has no ref (the URL form fails on such an input).
\<close>

theorem alias_form_ref_unset:
  "parse_git_source ''gh/acme/widgets/sub/dir'' =
     Some \<lparr>repo_url_for_clone = ''https://github.com/acme/widgets.git'', git_ref = None,
           path_in_repo = \<lparr>root = [], names = [''sub'', ''dir'']\<rparr>,
           provider_host = ''github.com'', user_or_org = ''acme''\<rparr> \<and>
   (length (split_on CHR ''/'' s) \<ge> 3 \<and> alias_host (lower (split_on CHR ''/'' s ! 0)) \<noteq> [] \<and>
    split_on CHR ''/'' s ! 1 \<noteq> [] \<and> split_on CHR ''/'' s ! 2 \<noteq> [] \<longrightarrow>
      parse_git_source s =
        Some \<lparr>repo_url_for_clone =
                clone_url (alias_host (lower (split_on CHR ''/'' s ! 0)))
                  (split_on CHR ''/'' s ! 1) (split_on CHR ''/'' s ! 2),
              git_ref = None,
              path_in_repo = Path (join ''/'' (drop 3 (split_on CHR ''/'' s))),
              provider_host = alias_host (lower (split_on CHR ''/'' s ! 0)),
              user_or_org = split_on CHR ''/'' s ! 1\<rparr>) \<and>
   (alias_host (lower (hd (split_on CHR ''/'' t))) \<noteq> [] \<and> parse_git_source t = Some d \<longrightarrow>
      git_ref d = None)"
proof -
  have ex: "parse_git_source ''gh/acme/widgets/sub/dir'' =
     Some \<lparr>repo_url_for_clone = ''https://github.com/acme/widgets.git'', git_ref = None,
           path_in_repo = \<lparr>root = [], names = [''sub'', ''dir'']\<rparr>,
           provider_host = ''github.com'', user_or_org = ''acme''\<rparr>"
    by code_simp
  have wf: "parse_git_source s =
        Some \<lparr>repo_url_for_clone =
                clone_url (alias_host (lower (split_on CHR ''/'' s ! 0)))
                  (split_on CHR ''/'' s ! 1) (split_on CHR ''/'' s ! 2),
              git_ref = None,
              path_in_repo = Path (join ''/'' (drop 3 (split_on CHR ''/'' s))),
              provider_host = alias_host (lower (split_on CHR ''/'' s ! 0)),
              user_or_org = split_on CHR ''/'' s ! 1\<rparr>"
    if "length (split_on CHR ''/'' s) \<ge> 3"
      and "alias_host (lower (split_on CHR ''/'' s ! 0)) \<noteq> []"
      and "split_on CHR ''/'' s ! 1 \<noteq> []" and "split_on CHR ''/'' s ! 2 \<noteq> []"
    using alias_form_wellformed [OF that] by (simp add: parse_git_source_def)
  have ref: "git_ref d = None"
    if "alias_host (lower (hd (split_on CHR ''/'' t))) \<noteq> []" and "parse_git_source t = Some d"
    using that url_form_alias_fails [OF that(1)] alias_form_shape [of t d]
    by (auto simp: parse_git_source_def split: option.splits)
  from ex wf ref show ?thesis by blast
qed

theorem alias_form_ref_unset_witness:
  "length (split_on CHR ''/'' ''GitLab/team/proj/docs/pkg'') \<ge> 3 \<and>
   alias_host (lower (split_on CHR ''/'' ''GitLab/team/proj/docs/pkg'' ! 0)) = ''gitlab.com'' \<and>
   alias_host (lower (hd (split_on CHR ''/'' ''GitLab/team/proj/docs/pkg''))) \<noteq> [] \<and>
   split_on CHR ''/'' ''GitLab/team/proj/docs/pkg'' ! 1 = ''team'' \<and>
   split_on CHR ''/'' ''GitLab/team/proj/docs/pkg'' ! 2 = ''proj'' \<and>
   parse_git_source ''GitLab/team/proj/docs/pkg'' =
     Some \<lparr>repo_url_for_clone = ''https://gitlab.com/team/proj.git'', git_ref = None,
           path_in_repo = \<lparr>root = [], names = [''docs'', ''pkg'']\<rparr>,
           provider_host = ''gitlab.com'', user_or_org = ''team''\<rparr>"
proof -
  have parts: "split_on CHR ''/'' ''GitLab/team/proj/docs/pkg'' =
                 [''GitLab'', ''team'', ''proj'', ''docs'', ''pkg'']"
    by code_simp
  have host: "alias_host (lower ''GitLab'') = ''gitlab.com''"
    by code_simp
  have path: "Path ''docs/pkg'' = \<lparr>root = [], names = [''docs'', ''pkg'']\<rparr>"
    by code_simp
  have url: "clone_url ''gitlab.com'' ''team'' ''proj'' = ''https://gitlab.com/team/proj.git''"
    by code_simp
  show ?thesis
    using alias_form_ref_unset [of "''GitLab/team/proj/docs/pkg''"]
    by (simp add: parts host path url)
qed

section \<open>Facts about the text transformations\<close>

lemma read_text_no_cr: "CHR 0x0D \<notin> set s \<Longrightarrow> read_text s = s"
  by (induction s rule: read_text.induct) auto

lemma read_text_has_no_cr: "CHR 0x0D \<notin> set (read_text s)"
  by (induction s rule: read_text.induct) auto

lemma splitlines_no_linebreak:
  "l \<in> set (splitlines s) \<Longrightarrow> c \<in> set l \<Longrightarrow> \<not> is_linebreak c"
proof (induction s arbitrary: l rule: splitlines.induct)
  case (1 s)
  show ?case
  proof (cases "s = []")
    case True
    with "1.prems" show ?thesis by (simp add: splitlines.simps)
  next
    case False
    define line where "line = takeWhile (\<lambda>c. \<not> is_linebreak c) s"
    have line: "\<not> is_linebreak c" if "c \<in> set line" for c
      using that unfolding line_def by (auto dest: set_takeWhileD)
    show ?thesis
    proof (cases "dropWhile (\<lambda>c. \<not> is_linebreak c) s")
      case Nil
      have "splitlines s = [line]"
        by (subst splitlines.simps) (simp add: False Let_def Nil line_def)
      with "1.prems" line show ?thesis by simp
    next
      case (Cons x r)
      define r' where "r' = (if x = CHR 0x0D \<and> take 1 r = [CHR 0x0A] then drop 1 r else r)"
      have "splitlines s = line # splitlines r'"
        by (subst splitlines.simps) (simp add: False Let_def Cons line_def r'_def)
      with "1.prems"(1) have "l = line \<or> l \<in> set (splitlines r')" by simp
      then show ?thesis
      proof
        assume "l = line"
        with line "1.prems"(2) show ?thesis by simp
      next
        assume "l \<in> set (splitlines r')"
        then show ?thesis
          using "1.IH" [OF False refl refl Cons] "1.prems"(2)
          by (simp add: r'_def)
      qed
    qed
  qed
qed

lemma set_join: "set (join sep xs) \<subseteq> set sep \<union> \<Union> (set ` set xs)"
  by (induction sep xs rule: join.induct) auto

lemma join_snoc: "xs \<noteq> [] \<Longrightarrow> join sep (xs @ [y]) = join sep xs @ sep @ y"
  by (induction sep xs rule: join.induct) auto

lemma join_ends_with_sep:
  assumes "\<forall>l \<in> set ls. c \<notin> set l"
  shows "endswith (join [c] ls) [c] \<longleftrightarrow> length ls \<ge> 2 \<and> last ls = []"
proof (cases ls rule: rev_cases)
  case Nil
  then show ?thesis by (simp add: endswith_def)
next
  case (snoc ys y)
  show ?thesis
  proof (cases "ys = []")
    case True
    with snoc assms show ?thesis
      by (cases y rule: rev_cases) (auto simp: endswith_def)
  next
    case False
    with snoc assms show ?thesis
      by (cases y rule: rev_cases) (auto simp: endswith_def join_snoc Suc_le_eq)
  qed
qed

lemma import_match_needs_keyword:
  "\<not> startswith s ''#import'' \<Longrightarrow> import_match n s = None"
  by (simp add: import_match_def)

lemma split_hd_in_tl:
  "xs = t @ us \<Longrightarrow> t \<noteq> [] \<Longrightarrow> us \<noteq> [] \<Longrightarrow> hd us \<in> set (tl xs)"
  by (cases t) auto

lemma no_keyword_in_gap:
  assumes gap: "\<not> sublist ''#import'' g"
    and rest: "rest = [] \<or> hd rest = CHR ''#''"
    and t: "suffix t g" "t \<noteq> []"
  shows "\<not> startswith (t @ rest) ''#import''"
proof
  assume "startswith (t @ rest) ''#import''"
  then have "prefix ''#import'' (t @ rest)"
    by (metis startswith_def take_is_prefix)
  then consider "prefix ''#import'' t" | us where "''#import'' = t @ us" "prefix us rest" "us \<noteq> []"
    unfolding prefix_append by (metis append_Nil2 prefix_order.order_refl)
  then show False
  proof cases
    case 1
    with t(1) have "sublist ''#import'' g"
      by (meson prefix_imp_sublist suffix_imp_sublist sublist_order.order_trans)
    with gap show False by simp
  next
    case 2
    from split_hd_in_tl [OF 2(1) t(2) 2(3)] have "hd us \<noteq> CHR ''#''" by auto
    moreover from 2(2,3) have "rest \<noteq> [] \<and> hd rest = hd us"
      by (cases us; cases rest) auto
    ultimately show False using rest by auto
  qed
qed

lemma import_sub_gap:
  assumes "\<not> sublist ''#import'' g" and "rest = [] \<or> hd rest = CHR ''#''"
  shows "import_sub n f (g @ rest) = g @ import_sub n f rest"
  using assms(1)
proof (induction g)
  case Nil
  show ?case by simp
next
  case (Cons c g)
  have "\<not> startswith ((c # g) @ rest) ''#import''"
    by (rule no_keyword_in_gap [OF Cons.prems assms(2)]) simp_all
  then have "import_match n (c # g @ rest) = None"
    by (simp add: import_match_needs_keyword)
  moreover from Cons.prems have "\<not> sublist ''#import'' g"
    by (auto simp: sublist_Cons_right)
  ultimately show ?case using Cons.IH by simp
qed

lemma import_match_self_import:
  "import_match ''main.typ'' (''#import \"../../main.typ\"'' @ rest) = Some ([], rest)"
proof -
  have u: "drop_updirs (''../../main.typ\"'' @ rest) = ''main.typ\"'' @ rest"
    by (subst drop_updirs.simps, simp)+
  show ?thesis
    using u by (simp add: import_match_def startswith_def isspace_def Let_def)
qed

lemma import_sub_self_import:
  "import_sub ''main.typ'' f (self_import @ rest) =
     ''#import \"'' @ f @ ''\"'' @ import_sub ''main.typ'' f ('': *'' @ rest)"
  using import_match_self_import [of "'': *'' @ rest"]
  by (simp add: self_import_def)

lemma import_sub_occurrences:
  assumes "\<not> sublist ''#import'' (a @ g)" and "\<forall>h \<in> set gs. \<not> sublist ''#import'' h"
  shows "import_sub ''main.typ'' f (a @ join self_import (g # gs)) =
           a @ join (''#import \"'' @ f @ ''\": *'') (g # gs)"
  using assms
proof (induction gs arbitrary: a g)
  case Nil
  then show ?case
    using import_sub_gap [of "a @ g" "[]" "''main.typ''" f] by simp
next
  case (Cons h gs)
  have start: "hd (self_import @ t) = CHR ''#''" for t
    by (simp add: self_import_def)
  from Cons.prems(2) have "\<not> sublist ''#import'' ('': *'' @ h)"
    by (simp add: sublist_Cons_right)
  with Cons.prems(2)
  have IH: "import_sub ''main.typ'' f ('': *'' @ join self_import (h # gs)) =
              '': *'' @ join (''#import \"'' @ f @ ''\": *'') (h # gs)"
    by (intro Cons.IH) simp_all
  have "import_sub ''main.typ'' f (a @ join self_import (g # h # gs)) =
          import_sub ''main.typ'' f ((a @ g) @ self_import @ join self_import (h # gs))"
    by simp
  also have "\<dots> = (a @ g) @ import_sub ''main.typ'' f (self_import @ join self_import (h # gs))"
    by (rule import_sub_gap [OF Cons.prems(1)]) (simp add: start)
  also have "\<dots> = (a @ g) @ ''#import \"'' @ f @ ''\"'' @ '': *''
                       @ join (''#import \"'' @ f @ ''\": *'') (h # gs)"
    by (simp only: import_sub_self_import IH)
  also have "\<dots> = a @ join (''#import \"'' @ f @ ''\": *'') (g # h # gs)"
    by simp
  finally show ?case .
qed

text \<open>
  C5. The claim: materializing a file named \<open>main.typ\<close> of package \<open>foo\<close>, version
  1.0.0, namespace \<open>preview\<close> rewrites every occurrence of the self-import, and all
  text outside the matched imports is byte-identical. Two inputs show that it does not
  hold as stated. The file is read and written as text, so a CR LF before the import
  comes out as LF; and an occurrence that follows an unterminated self-import with a
  colon clause lies inside the match of that import (the clause runs to the next
  quote) and stays as it is.
\<close>

theorem rewrite_changes_line_endings:
  "materialize ''main.typ'' ''preview/foo'' ''1.0.0'' ''main.typ''
     (''// note'' @ [CHR 0x0D, CHR 0x0A] @ self_import) =
     ''// note'' @ [CHR 0x0A] @ package_import \<and>
   materialize ''main.typ'' ''preview/foo'' ''1.0.0'' ''main.typ''
     (''#import \"../main.typ:'' @ self_import) =
     ''#import \"@preview/foo:1.0.0:#import \"../../main.typ\": *''"
  by code_simp

text \<open>
  C5, amended. For a file with the suffix \<open>.typ\<close> (such as \<open>main.typ\<close>) of package
  \<open>foo\<close>, version 1.0.0, namespace \<open>preview\<close>, with entry point \<open>main.typ\<close>: when
  the stored text is any number of occurrences of the self-import separated by
  stretches of text that contain no \<open>#import\<close> and no CR, the file stored at the
  destination is the same text with every occurrence replaced by
  \<open>#import "@preview/foo:1.0.0": *\<close> and every stretch unchanged.
\<close>

theorem self_imports_rewritten:
  assumes "has_typ_suffix name"
    and "\<forall>g \<in> set gaps. \<not> sublist ''#import'' g \<and> CHR 0x0D \<notin> set g"
  shows "materialize name ''preview/foo'' ''1.0.0'' ''main.typ'' (join self_import gaps) =
           join package_import gaps"
proof -
  from assms(1) have toml: "name \<noteq> ''typst.toml''"
    by (auto simp: has_typ_suffix_def endswith_def)
  have entry: "path_name (Path ''main.typ'') = ''main.typ''"
    by code_simp
  have "CHR 0x0D \<notin> set self_import"
    by (simp add: self_import_def)
  with assms(2) have "CHR 0x0D \<notin> set (join self_import gaps)"
    using set_join [of self_import gaps] by auto
  then have read: "read_text (join self_import gaps) = join self_import gaps"
    by (rule read_text_no_cr)
  have sub: "import_sub ''main.typ'' ''@preview/foo:1.0.0'' (join self_import gaps) =
               join package_import gaps"
  proof (cases gaps)
    case Nil
    then show ?thesis by simp
  next
    case (Cons g gs)
    with assms(2) show ?thesis
      using import_sub_occurrences [of "[]" g gs "''@preview/foo:1.0.0''"]
      by (simp add: package_import_def)
  qed
  show ?thesis
    using assms(1) toml
    by (simp add: materialize_def rewrite_imports_def Let_def entry read write_text_def sub)
qed

theorem self_imports_rewritten_witness:
  "has_typ_suffix ''main.typ'' \<and>
   \<not> sublist ''#import'' ''#let a = 1 '' \<and> \<not> sublist ''#import'' '' #show: x '' \<and>
   \<not> sublist ''#import'' '''' \<and>
   materialize ''main.typ'' ''preview/foo'' ''1.0.0'' ''main.typ''
     (''#let a = 1 '' @ self_import @ '' #show: x '' @ self_import) =
     ''#let a = 1 '' @ package_import @ '' #show: x '' @ package_import"
proof -
  have s: "has_typ_suffix ''main.typ''"
    by code_simp
  have g: "\<forall>g \<in> set [''#let a = 1 '', '' #show: x '', ''''].
             \<not> sublist ''#import'' g \<and> CHR 0x0D \<notin> set g"
    by code_simp
  from self_imports_rewritten [OF s g] g s show ?thesis
    by simp
qed

text \<open>
  C10. The claim: the copied manifest is the surviving lines joined with LF; line
  terminators of the source are not kept, and the copy never ends with a newline. The
  last part fails: when the last surviving line is empty (the source ends with a blank
  line), the join puts a separator before it and the copy ends with LF.
\<close>

theorem manifest_copy_can_end_with_newline:
  "materialize ''typst.toml'' ''preview/foo'' ''1.0.0'' ''main.typ''
     (''name = \"foo\"'' @ [CHR 0x0A, CHR 0x0A]) = ''name = \"foo\"'' @ [CHR 0x0A] \<and>
   endswith (materialize ''typst.toml'' ''preview/foo'' ''1.0.0'' ''main.typ''
     (''name = \"foo\"'' @ [CHR 0x0A, CHR 0x0A])) [CHR 0x0A]"
  by code_simp

text \<open>
  C10, amended. The copied manifest is the surviving lines (of the text read with
  universal newlines) joined with LF, whether or not a line was removed. No line
  terminator of the source is kept: the only line-breaking character in the copy is the
  LF of the join, so CR never occurs. One terminator at the end of the source is
  dropped, and the copy ends with a newline exactly when there are at least two
  surviving lines and the last one is empty.
\<close>

theorem manifest_lines_joined:
  "materialize ''typst.toml'' base ver entry stored =
     join [CHR 0x0A] (kept_lines (read_text stored)) \<and>
   (\<forall>c \<in> set (materialize ''typst.toml'' base ver entry stored).
      c = CHR 0x0A \<or> \<not> is_linebreak c) \<and>
   CHR 0x0D \<notin> set (materialize ''typst.toml'' base ver entry stored) \<and>
   (endswith (materialize ''typst.toml'' base ver entry stored) [CHR 0x0A] \<longleftrightarrow>
      length (kept_lines (read_text stored)) \<ge> 2 \<and> last (kept_lines (read_text stored)) = [])"
proof -
  define ls where "ls = kept_lines (read_text stored)"
  have out: "materialize ''typst.toml'' base ver entry stored = join [CHR 0x0A] ls"
    by (simp add: materialize_def sanitize_manifest_def write_text_def Let_def ls_def)
  have nobreak: "\<not> is_linebreak c" if "l \<in> set ls" "c \<in> set l" for l c
    using that splitlines_no_linebreak [of l "read_text stored" c]
    by (simp add: ls_def kept_lines_def)
  have chars: "c = CHR 0x0A \<or> \<not> is_linebreak c" if "c \<in> set (join [CHR 0x0A] ls)" for c
    using that set_join [of "[CHR 0x0A]" ls] nobreak by auto
  have "is_linebreak CHR 0x0D" "is_linebreak CHR 0x0A"
    by (simp_all add: is_linebreak_def)
  with chars nobreak have cr: "CHR 0x0D \<notin> set (join [CHR 0x0A] ls)"
    and lf: "\<forall>l \<in> set ls. CHR 0x0A \<notin> set l"
    by auto
  from lf have "endswith (join [CHR 0x0A] ls) [CHR 0x0A] \<longleftrightarrow> length ls \<ge> 2 \<and> last ls = []"
    by (rule join_ends_with_sep)
  with out chars cr show ?thesis
    unfolding ls_def [symmetric] by simp
qed

theorem manifest_lines_joined_witness:
  "kept_lines (read_text (''[package]'' @ [CHR 0x0D, CHR 0x0A] @ ''  #:schema x''
        @ [CHR 0x0D, CHR 0x0A] @ ''name = 1'' @ [CHR 0x0D, CHR 0x0A])) =
     [''[package]'', ''name = 1''] \<and>
   materialize ''typst.toml'' ''preview/foo'' ''1.0.0'' ''main.typ''
     (''[package]'' @ [CHR 0x0D, CHR 0x0A] @ ''  #:schema x'' @ [CHR 0x0D, CHR 0x0A]
        @ ''name = 1'' @ [CHR 0x0D, CHR 0x0A]) =
     ''[package]'' @ [CHR 0x0A] @ ''name = 1'' \<and>
   \<not> endswith (materialize ''typst.toml'' ''preview/foo'' ''1.0.0'' ''main.typ''
     (''[package]'' @ [CHR 0x0D, CHR 0x0A] @ ''  #:schema x'' @ [CHR 0x0D, CHR 0x0A]
        @ ''name = 1'' @ [CHR 0x0D, CHR 0x0A])) [CHR 0x0A]"
proof -
  have k: "kept_lines (read_text (''[package]'' @ [CHR 0x0D, CHR 0x0A] @ ''  #:schema x''
        @ [CHR 0x0D, CHR 0x0A] @ ''name = 1'' @ [CHR 0x0D, CHR 0x0A])) =
     [''[package]'', ''name = 1'']"
    by code_simp
  note inst = manifest_lines_joined [of "''preview/foo''" "''1.0.0''" "''main.typ''"
      "''[package]'' @ [CHR 0x0D, CHR 0x0A] @ ''  #:schema x'' @ [CHR 0x0D, CHR 0x0A]
        @ ''name = 1'' @ [CHR 0x0D, CHR 0x0A]", unfolded k]
  from inst have "materialize ''typst.toml'' ''preview/foo'' ''1.0.0'' ''main.typ''
     (''[package]'' @ [CHR 0x0D, CHR 0x0A] @ ''  #:schema x'' @ [CHR 0x0D, CHR 0x0A]
        @ ''name = 1'' @ [CHR 0x0D, CHR 0x0A]) = ''[package]'' @ [CHR 0x0A] @ ''name = 1''"
    by simp
  moreover from inst have "\<not> endswith (materialize ''typst.toml'' ''preview/foo'' ''1.0.0''
     ''main.typ'' (''[package]'' @ [CHR 0x0D, CHR 0x0A] @ ''  #:schema x''
        @ [CHR 0x0D, CHR 0x0A] @ ''name = 1'' @ [CHR 0x0D, CHR 0x0A])) [CHR 0x0A]"
    by (simp add: endswith_def)
  ultimately show ?thesis using k by blast
qed

section \<open>Facts about exclusion patterns\<close>

lemma translate_literal:
  "\<not> has_glob_chars pat \<Longrightarrow> translate pat = map Lit pat"
  by (induction pat) (auto simp: has_glob_chars_def)

lemma glob_match_literal: "glob_match (map Lit pat) s \<longleftrightarrow> s = pat"
proof (induction pat arbitrary: s)
  case Nil
  show ?case by simp
next
  case (Cons x pat)
  then show ?case by (cases s) auto
qed

lemma fnmatch_literal:
  "\<not> has_glob_chars pat \<Longrightarrow> fnmatch rel pat \<longleftrightarrow> rel = pat"
  by (simp add: fnmatch_def translate_literal glob_match_literal)

lemma rstrip_char_idem: "rstrip_char c (rstrip_char c s) = rstrip_char c s"
  by (simp add: rstrip_char_def dropWhile_idem)

lemma pattern_excludes_literal:
  assumes "\<not> has_glob_chars pattern"
  shows "pattern_excludes tree base_dir rel pattern \<longleftrightarrow>
           rel = pattern \<or>
           ((endswith pattern ''/'' \<or> isdir tree (os_path_join (path_str base_dir) pattern)) \<and>
            (rel = rstrip_char CHR ''/'' pattern \<or>
             startswith rel (rstrip_char CHR ''/'' pattern @ ''/'')))"
  using assms
  by (auto simp: pattern_excludes_def fnmatch_literal rstrip_char_idem Let_def)

text \<open>
  C3. The claim: a pattern without glob metacharacters excludes by directory prefix
  only when it names an existing directory under the source root, and a pattern that
  names none excludes only by glob matching. The code also takes every pattern that
  ends with a separator as a directory prefix, whether the directory exists or not:
  with a regular file \<open>build\<close> in the source root, the pattern \<open>build/\<close> names no
  directory and does not match \<open>build\<close> as a glob, and the file is excluded.
\<close>

theorem trailing_separator_needs_no_directory:
  "\<not> has_glob_chars ''build/'' \<and>
   \<not> isdir (Dir [(''src'', Dir [(''build'', File ''x'')])])
       (os_path_join (path_str [''src'']) ''build/'') \<and>
   \<not> isdir (Dir [(''src'', Dir [(''build'', File ''x'')])])
       (os_path_join (path_str [''src'']) ''build'') \<and>
   relpath [''src'', ''build''] [''src''] = ''build'' \<and>
   \<not> fnmatch ''build'' ''build/'' \<and>
   should_exclude (Dir [(''src'', Dir [(''build'', File ''x'')])])
     [''src'', ''build''] [''build/''] [''src'']"
  by code_simp

text \<open>
  C3, amended. For a pattern without glob metacharacters, glob matching is equality
  with the whole relative path. The pattern excludes a relative path exactly when the
  path equals the pattern, or the pattern ends with a separator or names an existing
  directory (the source root joined with the pattern is a directory) and the path is
  the pattern without its trailing separators or starts with that text and a
  separator. A pattern that neither ends with a separator nor names an existing
  directory therefore excludes only the path equal to it.
\<close>

theorem literal_pattern_exclusion:
  assumes "\<not> has_glob_chars pattern"
  shows "(fnmatch rel pattern \<longleftrightarrow> rel = pattern) \<and>
         (should_exclude tree file_path [pattern] base_dir \<longleftrightarrow>
            relpath file_path base_dir = pattern \<or>
            ((endswith pattern ''/'' \<or> isdir tree (os_path_join (path_str base_dir) pattern)) \<and>
             (relpath file_path base_dir = rstrip_char CHR ''/'' pattern \<or>
              startswith (relpath file_path base_dir) (rstrip_char CHR ''/'' pattern @ ''/''))))"
  using assms pattern_excludes_literal [OF assms, of tree base_dir "relpath file_path base_dir"]
  by (simp add: should_exclude_def fnmatch_literal Let_def)

theorem literal_pattern_exclusion_witness:
  "\<not> has_glob_chars ''build'' \<and>
   isdir (Dir [(''src'', Dir [(''build'', Dir [(''x.o'', File ''x'')])])])
     (os_path_join (path_str [''src'']) ''build'') \<and>
   relpath [''src'', ''build'', ''x.o''] [''src''] = ''build/x.o'' \<and>
   should_exclude (Dir [(''src'', Dir [(''build'', Dir [(''x.o'', File ''x'')])])])
     [''src'', ''build'', ''x.o''] [''build''] [''src'']"
proof -
  have g: "\<not> has_glob_chars ''build''"
    by code_simp
  have d: "isdir (Dir [(''src'', Dir [(''build'', Dir [(''x.o'', File ''x'')])])])
     (os_path_join (path_str [''src'']) ''build'')"
    by code_simp
  have r: "relpath [''src'', ''build'', ''x.o''] [''src''] = ''build/x.o''"
    by code_simp
  have p: "startswith ''build/x.o'' (rstrip_char CHR ''/'' ''build'' @ ''/'')"
    by code_simp
  from literal_pattern_exclusion [OF g, of "''build/x.o''"
      "Dir [(''src'', Dir [(''build'', Dir [(''x.o'', File ''x'')])])]"
      "[''src'', ''build'', ''x.o'']" "[''src'']"] g d r p
  show ?thesis by simp
qed

section \<open>Facts about the commands\<close>

text \<open>
  C4. The claim: every command that loads a manifest, build and install alike, fails
  with InvalidManifest before any file is written when \<open>package.name\<close> differs from
  the name of the directory that holds the manifest. Only \<open>build\<close> calls
  \<open>validate_package_name\<close>. \<open>install\<close> never compares the two: with a manifest
  named \<open>foo\<close> in the directory \<open>bar\<close> of the clone, the name check rejects the
  pair, \<open>build\<close> fails with it, and \<open>install\<close> copies both files.
\<close>

theorem install_ignores_directory_name:
  "pkg_name example_manifest = Some ''foo'' \<and>
   validate_package_name ''foo'' [''tmp'', ''clone'', ''bar''] = Inl BadParameter \<and>
   build example_env [''tmp'', ''clone'', ''bar''] ''out'' ''preview'' = Inl BadParameter \<and>
   install example_env ''gh/acme/widgets/bar'' =
     Inr [([''tmp'', ''clone'', ''bar'', ''typst.toml''],
           [''data'', ''packages'', ''gh-acme'', ''foo'', ''1.0.0'', ''typst.toml''],
           ''[package]''),
          ([''tmp'', ''clone'', ''bar'', ''lib.typ''],
           [''data'', ''packages'', ''gh-acme'', ''foo'', ''1.0.0'', ''lib.typ''],
           ''#let x = 1'')]"
  by code_simp

text \<open>
  C4, amended. For \<open>build\<close>: when the manifest it loads has a \<open>package.name\<close> that
  differs from the name of the directory holding the manifest, the command ends with an
  error and \<open>copy_files\<close> is never reached, so no file is written to the
  destination. The error is the BadParameter of \<open>validate_package_name\<close> when the
  earlier checks pass (a version is given and the compiler requirement, if any, is
  met), and the exit with status 1 of those checks otherwise (BadParameter when the
  reported compiler version does not parse).
\<close>

theorem build_rejects_name_mismatch:
  assumes "locate_toml (filesystem env) toml_file = Some toml_path"
    and "read_toml env (filesystem env) toml_path = Inr cfg"
    and "pkg_name cfg = Some name"
    and "name \<noteq> (if butlast toml_path = [] then [] else last (butlast toml_path))"
  shows "(\<exists>e. build env toml_file output_dir namespace = Inl e) \<and>
         (name \<noteq> [] \<and> pkg_version cfg \<noteq> None \<and> pkg_version cfg \<noteq> Some [] \<and>
          check_compiler env (pkg_compiler cfg) = Inr () \<longrightarrow>
            build env toml_file output_dir namespace = Inl BadParameter)"
proof -
  from assms(4) have v: "validate_package_name name (butlast toml_path) = Inl BadParameter"
    by (simp add: validate_package_name_def)
  show ?thesis
    using assms(1,2,3) v
    by (auto simp: build_def Let_def split: option.splits sum.splits)
qed

theorem build_rejects_name_mismatch_witness:
  "locate_toml (filesystem example_env) [''tmp'', ''clone'', ''bar''] =
     Some [''tmp'', ''clone'', ''bar'', ''typst.toml''] \<and>
   read_toml example_env (filesystem example_env) [''tmp'', ''clone'', ''bar'', ''typst.toml''] =
     Inr example_manifest \<and>
   pkg_name example_manifest = Some ''foo'' \<and>
   ''foo'' \<noteq> last (butlast [''tmp'', ''clone'', ''bar'', ''typst.toml'']) \<and>
   check_compiler example_env (pkg_compiler example_manifest) = Inr () \<and>
   build example_env [''tmp'', ''clone'', ''bar''] ''out'' ''preview'' = Inl BadParameter"
proof -
  have l: "locate_toml (filesystem example_env) [''tmp'', ''clone'', ''bar''] =
     Some [''tmp'', ''clone'', ''bar'', ''typst.toml'']"
    by code_simp
  have r: "read_toml example_env (filesystem example_env)
     [''tmp'', ''clone'', ''bar'', ''typst.toml''] = Inr example_manifest"
    by code_simp
  have n: "pkg_name example_manifest = Some ''foo''"
    by code_simp
  have d: "''foo'' \<noteq> (if butlast [''tmp'', ''clone'', ''bar'', ''typst.toml''] = [] then []
             else last (butlast [''tmp'', ''clone'', ''bar'', ''typst.toml'']))"
    by simp
  have c: "check_compiler example_env (pkg_compiler example_manifest) = Inr ()"
    by code_simp
  have v: "pkg_version example_manifest = Some ''1.0.0''"
    by code_simp
  from build_rejects_name_mismatch [OF l r n d, of "''out''" "''preview''"] c v
  have "build example_env [''tmp'', ''clone'', ''bar''] ''out'' ''preview'' = Inl BadParameter"
    by simp
  with l r n c show ?thesis by simp
qed

end
